theory Spec2Isabelle
  imports
    Main
    "HOL-Library.AList"
    "HOL-Library.Char_ord"
    "HOL-Library.List_Lexorder"
    "HOL-Library.Product_Lexorder"
    "HOL-Library.Word"
begin

section \<open>Data model\<close>

text \<open>
  The emulator's entities, as \<open>storage/badger/store.go\<close> and \<open>blockchain.go\<close> use them.
  Identifiers are 32-byte digests of an entity's content; the digest is opaque here, so an
  identifier is a number and \<open>ID()\<close> is a field of the entity. Heights and indices are
  unsigned machine integers; the store only compares them and builds keys from them, and
  the one sum (the pending block is one above the latest block) stays far from \<open>2^64\<close>,
  so they are natural numbers and the wrap-around is not modelled.
\<close>

type_synonym Identifier = nat
type_synonym bytes = "8 word list"

text \<open>A register value is a byte slice; \<open>None\<close> is Go's \<open>nil\<close> (the register was deleted).\<close>

type_synonym RegisterValue = "bytes option"

datatype RegisterID = RegisterID (Owner: string) (Controller: string) (Key: string)

text \<open>
  \<open>delta.Delta\<close>, seen through \<open>RegisterUpdates()\<close>: the updated register ids, each with
  its value (two slices of equal length in the source, one list of pairs here).
\<close>

type_synonym Delta = "(RegisterID \<times> RegisterValue) list"

record Event =
  Type :: string
  TransactionIndex :: nat
  EventIndex :: nat
  Payload :: bytes

record Block =
  BlockID :: Identifier
  Height :: nat
  ParentID :: Identifier

record LightCollection =
  CollectionID :: Identifier
  Transactions :: "Identifier list"

record TransactionBody =
  TxID :: Identifier
  Script :: bytes

record StorableTransactionResult =
  ErrorCode :: nat
  ErrorMessage :: string
  Logs :: "string list"
  Events :: "Event list"

section \<open>The key-value backend\<close>

text \<open>
  Modelled from the spec: the key constructors of \<open>storage/badger\<close> (\<open>blockKey\<close>,
  \<open>ledgerValueKey\<close>, \<open>eventKey\<close>, ...) are not among the sources. The key schema of the
  specification gives every kind of key its own prefix and builds it from fixed-width
  big-endian numbers and length-prefixed strings, so a key is its structured content:
  two keys are equal exactly when their kind and all components are.
\<close>

datatype key =
    blockKey nat
  | blockIDIndexKey Identifier
  | latestBlockKey
  | collectionKey Identifier
  | transactionKey Identifier
  | transactionResultKey Identifier
  | ledgerValueKey RegisterID nat
  | ledgerChangelogKey RegisterID
  | eventKey nat nat nat string

text \<open>
  Modelled from the spec: the encoders and decoders (\<open>encodeBlock\<close>, \<open>decodeEvent\<close>, ...)
  are not among the sources. The specification asks that they round-trip, so an encoded
  value is the value with a tag naming its kind: encoding is total, and decoding fails on
  a value of another kind. Ledger values are stored raw.
\<close>

datatype stored =
    encBlock Block
  | encUint64 nat
  | encCollection LightCollection
  | encTransaction TransactionBody
  | encTransactionResult StorableTransactionResult
  | raw bytes
  | encChangelist "nat list"
  | encEvent Event

datatype error =
    ErrNotFound
  | ErrSetFailed key
  | ErrDecode
  | ErrCountMismatch nat nat
  | ErrNilDereference
  | ErrIndexOutOfRange
  | StorageError error
  | WrappedError error
  | PendingBlockMidExecutionError Identifier
  | PendingBlockCommitBeforeExecutionError Identifier
  | PendingBlockTransactionsExhaustedError Identifier
  | DuplicateTransactionError Identifier
  | ExecutionError nat string
  | AccountCreatedEventNotFound

text \<open>
  The Badger database: its content, an association list with one entry per key, and the
  writes the backend turns down. \<open>txn.Set\<close> returns an error in the source (every call
  checks it); which keys Badger refuses (an empty or oversized key, a full transaction)
  is the library's business, so \<open>refuses\<close> is left open.
\<close>

type_synonym txn = "(key \<times> stored) list"

record DB =
  kv :: txn
  refuses :: "key \<Rightarrow> bool"

definition txn_Set :: "(key \<Rightarrow> bool) \<Rightarrow> key \<Rightarrow> stored \<Rightarrow> txn \<Rightarrow> error + txn" where
  "txn_Set rf k v t = (if rf k then Inl (ErrSetFailed k) else Inr (AList.update k v t))"

text \<open>\<open>getTx\<close>: a missing key is \<open>storage.ErrNotFound\<close>.\<close>

definition getTx :: "txn \<Rightarrow> key \<Rightarrow> error + stored" where
  "getTx t k = (case map_of t k of None \<Rightarrow> Inl ErrNotFound | Some v \<Rightarrow> Inr v)"

definition getLatestBlockHeightTx :: "txn \<Rightarrow> error + nat" where
  "getLatestBlockHeightTx t =
     (case getTx t latestBlockKey of
        Inl e \<Rightarrow> Inl e
      | Inr (encUint64 n) \<Rightarrow> Inr n
      | Inr _ \<Rightarrow> Inl ErrDecode)"

section \<open>The changelog index\<close>

text \<open>
  Modelled from the spec: \<open>changelog\<close> and \<open>changelist\<close> (\<open>newChangelog\<close>, \<open>addChange\<close>,
  \<open>getChangelist\<close>, \<open>setChangelist\<close>, \<open>getMostRecentChange\<close>) are not among the sources.
  The specification: an in-memory map from register id to an ordered list of heights;
  \<open>add(r, h)\<close> appends; \<open>most_recent(r, h)\<close> is the largest entry at most \<open>h\<close>, if any.
\<close>

type_synonym changelist = "nat list"
type_synonym changelog = "RegisterID \<rightharpoonup> changelist"

definition newChangelog :: changelog where
  "newChangelog = Map.empty"

definition getChangelist :: "changelog \<Rightarrow> RegisterID \<Rightarrow> changelist" where
  "getChangelist c r = (case c r of None \<Rightarrow> [] | Some l \<Rightarrow> l)"

definition addChange :: "changelog \<Rightarrow> RegisterID \<Rightarrow> nat \<Rightarrow> changelog" where
  "addChange c r h = c(r \<mapsto> getChangelist c r @ [h])"

definition setChangelist :: "changelog \<Rightarrow> RegisterID \<Rightarrow> changelist \<Rightarrow> changelog" where
  "setChangelist c r l = c(r \<mapsto> l)"

fun search :: "changelist \<Rightarrow> nat \<Rightarrow> nat option" where
  "search [] h = None"
| "search (c # cs) h =
     (case search cs h of
        None \<Rightarrow> (if c \<le> h then Some c else None)
      | Some m \<Rightarrow> (if c \<le> h \<and> m < c then Some c else Some m))"

definition getMostRecentChange :: "changelog \<Rightarrow> RegisterID \<Rightarrow> nat \<Rightarrow> nat option" where
  "getMostRecentChange c r h = (case c r of None \<Rightarrow> None | Some l \<Rightarrow> search l h)"

section \<open>The snapshot repository\<close>

text \<open>
  The go-git repository over the database directory, reduced to what the store reads
  back: the files each branch head and each tag hold (a copy of the database content),
  and the branch that is checked out. go-git's calls are taken to succeed, except the
  checkout of a branch that does not exist, the one failure \<open>JumpToContext\<close> branches on.
\<close>

record Git =
  branches :: "(string \<times> txn) list"
  tags :: "(string \<times> txn) list"
  HEAD :: string

record Store =
  db :: DB
  ledgerChangeLog :: changelog
  dbGitRepository :: Git

text \<open>\<open>newCommit\<close>: sync, add the database files, commit on the current branch.\<close>

definition newCommit :: "Store \<Rightarrow> Store" where
  "newCommit s =
     s\<lparr>dbGitRepository := (dbGitRepository s)
          \<lparr>branches := AList.update (HEAD (dbGitRepository s)) (kv (db s))
                         (branches (dbGitRepository s))\<rparr>\<rparr>"

section \<open>Ledger deltas and ledger views\<close>

text \<open>
  \<open>insertLedgerDelta\<close>: the closure run inside a Badger transaction. It writes to the
  transaction and, at the same time, to the in-memory changelog of the store; the result
  carries the error (if any), the transaction and the changelog as the closure left them.
\<close>

fun insertLedgerDelta ::
  "(key \<Rightarrow> bool) \<Rightarrow> nat \<Rightarrow> Delta \<Rightarrow> txn \<Rightarrow> changelog \<Rightarrow> error option \<times> txn \<times> changelog" where
  "insertLedgerDelta rf blockHeight [] t cl = (None, t, cl)"
| "insertLedgerDelta rf blockHeight ((registerID, val) # rest) t cl =
     (case (case val of
              None \<Rightarrow> Inr t
            | Some b \<Rightarrow> txn_Set rf (ledgerValueKey registerID blockHeight) (raw b) t) of
        Inl e \<Rightarrow> (Some e, t, cl)
      | Inr t1 \<Rightarrow>
          (let cl1 = addChange cl registerID blockHeight in
           case txn_Set rf (ledgerChangelogKey registerID)
                  (encChangelist (getChangelist cl1 registerID)) t1 of
             Inl e \<Rightarrow> (Some e, t1, cl1)
           | Inr t2 \<Rightarrow> insertLedgerDelta rf blockHeight rest t2 cl1))"

text \<open>
  \<open>db.Update\<close>: the writes of the closure reach the database only when it returns no
  error. The changelog is not part of the transaction: it stays as the closure left it.
\<close>

definition Update ::
  "Store \<Rightarrow> (txn \<Rightarrow> changelog \<Rightarrow> error option \<times> txn \<times> changelog) \<Rightarrow> error option \<times> Store" where
  "Update s f =
     (case f (kv (db s)) (ledgerChangeLog s) of
        (Some e, t, cl) \<Rightarrow> (Some e, s\<lparr>ledgerChangeLog := cl\<rparr>)
      | (None, t, cl) \<Rightarrow> (None, s\<lparr>db := (db s)\<lparr>kv := t\<rparr>, ledgerChangeLog := cl\<rparr>))"

definition InsertLedgerDelta :: "Store \<Rightarrow> nat \<Rightarrow> Delta \<Rightarrow> error option \<times> Store" where
  "InsertLedgerDelta s blockHeight delta =
     Update s (insertLedgerDelta (refuses (db s)) blockHeight delta)"

text \<open>
  \<open>LedgerViewByHeight\<close>: the read function of the view. The most recent change at or
  below the height keys the value; when the changelog has no such change there is no
  key that holds a value, and the lookup finds nothing. A missing value is silenced to
  \<open>nil\<close>; any other error of the lookup is returned.
\<close>

definition LedgerViewByHeight :: "Store \<Rightarrow> nat \<Rightarrow> RegisterID \<Rightarrow> error + RegisterValue" where
  "LedgerViewByHeight s blockHeight rid =
     (case (case getMostRecentChange (ledgerChangeLog s) rid blockHeight of
              None \<Rightarrow> Inl ErrNotFound
            | Some lastChangedBlock \<Rightarrow> getTx (kv (db s)) (ledgerValueKey rid lastChangedBlock)) of
        Inl ErrNotFound \<Rightarrow> Inr None
      | Inl e \<Rightarrow> Inl e
      | Inr (raw v) \<Rightarrow> Inr (Some v)
      | Inr _ \<Rightarrow> Inl ErrDecode)"

section \<open>Blocks, collections, transactions, results and events\<close>

text \<open>
  \<open>store\<close>: the closure that writes a block, its id index and, when the block is at or
  above the latest height, the latest-height pointer. A missing pointer reads as height 0.
\<close>

definition store :: "(key \<Rightarrow> bool) \<Rightarrow> Block \<Rightarrow> txn \<Rightarrow> error + txn" where
  "store rf block t =
     (case (case getLatestBlockHeightTx t of
              Inl ErrNotFound \<Rightarrow> Inr 0
            | Inl e \<Rightarrow> Inl e
            | Inr n \<Rightarrow> Inr n) of
        Inl e \<Rightarrow> Inl e
      | Inr latestBlockHeight \<Rightarrow>
          (case txn_Set rf (blockKey (Height block)) (encBlock block) t of
             Inl e \<Rightarrow> Inl e
           | Inr t1 \<Rightarrow>
               (case txn_Set rf (blockIDIndexKey (BlockID block)) (encUint64 (Height block)) t1 of
                  Inl e \<Rightarrow> Inl e
                | Inr t2 \<Rightarrow>
                    if Height block \<ge> latestBlockHeight
                    then txn_Set rf latestBlockKey (encUint64 (Height block)) t2
                    else Inr t2)))"

definition insertCollection :: "(key \<Rightarrow> bool) \<Rightarrow> LightCollection \<Rightarrow> txn \<Rightarrow> error + txn" where
  "insertCollection rf col t = txn_Set rf (collectionKey (CollectionID col)) (encCollection col) t"

definition insertTransaction ::
  "(key \<Rightarrow> bool) \<Rightarrow> Identifier \<Rightarrow> TransactionBody \<Rightarrow> txn \<Rightarrow> error + txn" where
  "insertTransaction rf txID tx t = txn_Set rf (transactionKey txID) (encTransaction tx) t"

definition insertTransactionResult ::
  "(key \<Rightarrow> bool) \<Rightarrow> Identifier \<Rightarrow> StorableTransactionResult \<Rightarrow> txn \<Rightarrow> error + txn" where
  "insertTransactionResult rf txID result t =
     txn_Set rf (transactionResultKey txID) (encTransactionResult result) t"

fun insertEvents :: "(key \<Rightarrow> bool) \<Rightarrow> nat \<Rightarrow> Event list \<Rightarrow> txn \<Rightarrow> error + txn" where
  "insertEvents rf blockHeight [] t = Inr t"
| "insertEvents rf blockHeight (event # rest) t =
     (case txn_Set rf
             (eventKey blockHeight (TransactionIndex event) (EventIndex event) (Type event))
             (encEvent event) t of
        Inl e \<Rightarrow> Inl e
      | Inr t1 \<Rightarrow> insertEvents rf blockHeight rest t1)"

text \<open>The loops of \<open>CommitBlock\<close> over the collections and over the transaction map.\<close>

fun insertCollections :: "(key \<Rightarrow> bool) \<Rightarrow> LightCollection list \<Rightarrow> txn \<Rightarrow> error + txn" where
  "insertCollections rf [] t = Inr t"
| "insertCollections rf (col # rest) t =
     (case insertCollection rf col t of
        Inl e \<Rightarrow> Inl e
      | Inr t1 \<Rightarrow> insertCollections rf rest t1)"

text \<open>
  The transactions and their results are Go maps from identifier to pointer; they are
  association lists here, read with \<open>map_of\<close>. A transaction without a result makes the
  source dereference \<open>nil\<close>.
\<close>

fun insertTransactions ::
  "(key \<Rightarrow> bool) \<Rightarrow> (Identifier \<times> TransactionBody) list \<Rightarrow>
   (Identifier \<times> StorableTransactionResult) list \<Rightarrow> txn \<Rightarrow> error + txn" where
  "insertTransactions rf [] transactionResults t = Inr t"
| "insertTransactions rf ((txID, tx) # rest) transactionResults t =
     (case insertTransaction rf txID tx t of
        Inl e \<Rightarrow> Inl e
      | Inr t1 \<Rightarrow>
          (case map_of transactionResults txID of
             None \<Rightarrow> Inl ErrNilDereference
           | Some result \<Rightarrow>
               (case insertTransactionResult rf txID result t1 of
                  Inl e \<Rightarrow> Inl e
                | Inr t2 \<Rightarrow> insertTransactions rf rest transactionResults t2)))"

text \<open>The closure \<open>CommitBlock\<close> hands to \<open>db.Update\<close>.\<close>

definition commitBlockTxn ::
  "(key \<Rightarrow> bool) \<Rightarrow> Block \<Rightarrow> LightCollection list \<Rightarrow> (Identifier \<times> TransactionBody) list \<Rightarrow>
   (Identifier \<times> StorableTransactionResult) list \<Rightarrow> Delta \<Rightarrow> Event list \<Rightarrow>
   txn \<Rightarrow> changelog \<Rightarrow> error option \<times> txn \<times> changelog" where
  "commitBlockTxn rf block collections transactions transactionResults delta events t cl =
     (case store rf block t of
        Inl e \<Rightarrow> (Some e, t, cl)
      | Inr t1 \<Rightarrow>
     (case insertCollections rf collections t1 of
        Inl e \<Rightarrow> (Some e, t1, cl)
      | Inr t2 \<Rightarrow>
     (case insertTransactions rf transactions transactionResults t2 of
        Inl e \<Rightarrow> (Some e, t2, cl)
      | Inr t3 \<Rightarrow>
     (case insertLedgerDelta rf (Height block) delta t3 cl of
        (Some e, t4, cl4) \<Rightarrow> (Some e, t4, cl4)
      | (None, t4, cl4) \<Rightarrow>
     (case insertEvents rf (Height block) events t4 of
        Inl e \<Rightarrow> (Some e, t4, cl4)
      | Inr t5 \<Rightarrow> (None, t5, cl4))))))"

text \<open>
  \<open>CommitBlock\<close> of the store. A \<open>nil\<close> event slice and an empty one write nothing alike,
  so the events are a list. After the transaction the store takes a snapshot commit.
\<close>

definition CommitBlock ::
  "Store \<Rightarrow> Block \<Rightarrow> LightCollection list \<Rightarrow> (Identifier \<times> TransactionBody) list \<Rightarrow>
   (Identifier \<times> StorableTransactionResult) list \<Rightarrow> Delta \<Rightarrow> Event list \<Rightarrow>
   error option \<times> Store" where
  "CommitBlock s block collections transactions transactionResults delta events =
     (if length transactions \<noteq> length transactionResults
      then (Some (ErrCountMismatch (length transactions) (length transactionResults)), s)
      else
        (case Update s (commitBlockTxn (refuses (db s)) block collections transactions
                          transactionResults delta events) of
           (Some e, s1) \<Rightarrow> (Some e, s1)
         | (None, s1) \<Rightarrow> (None, newCommit s1)))"

definition LatestBlock :: "Store \<Rightarrow> error + Block" where
  "LatestBlock s =
     (case getLatestBlockHeightTx (kv (db s)) of
        Inl e \<Rightarrow> Inl e
      | Inr latestBlockHeight \<Rightarrow>
          (case getTx (kv (db s)) (blockKey latestBlockHeight) of
             Inl e \<Rightarrow> Inl e
           | Inr (encBlock block) \<Rightarrow> Inr block
           | Inr _ \<Rightarrow> Inl ErrDecode))"

definition TransactionByID :: "Store \<Rightarrow> Identifier \<Rightarrow> error + TransactionBody" where
  "TransactionByID s txID =
     (case getTx (kv (db s)) (transactionKey txID) of
        Inl e \<Rightarrow> Inl e
      | Inr (encTransaction tx) \<Rightarrow> Inr tx
      | Inr _ \<Rightarrow> Inl ErrDecode)"

definition TransactionResultByID :: "Store \<Rightarrow> Identifier \<Rightarrow> error + StorableTransactionResult" where
  "TransactionResultByID s txID =
     (case getTx (kv (db s)) (transactionResultKey txID) of
        Inl e \<Rightarrow> Inl e
      | Inr (encTransactionResult result) \<Rightarrow> Inr result
      | Inr _ \<Rightarrow> Inl ErrDecode)"

section \<open>Reading the events of a block\<close>

text \<open>
  Modelled from the spec: \<open>eventKeyBlockPrefix\<close> and \<open>eventKeyHasType\<close> are not among the
  sources. An event key is \<open>event/height/tx_idx/evt_idx/type\<close> with big-endian numbers, so
  the keys under the prefix of a height are the event keys of that height, and their
  byte-wise order is the lexicographic order of \<open>(tx_idx, evt_idx, type)\<close>. A key has a
  type when its type component is that type.
\<close>

fun eventKeyBlockPrefix :: "nat \<Rightarrow> key \<Rightarrow> (nat \<times> nat \<times> string) option" where
  "eventKeyBlockPrefix blockHeight (eventKey h txIndex eventIndex eventType) =
     (if h = blockHeight then Some (txIndex, eventIndex, eventType) else None)"
| "eventKeyBlockPrefix blockHeight _ = None"

definition eventKeyHasType :: "nat \<times> nat \<times> string \<Rightarrow> string \<Rightarrow> bool" where
  "eventKeyHasType k eventType = (snd (snd k) = eventType)"

text \<open>
  The iterator over the prefix of a height: the items under the prefix in key order,
  from the start key on.
\<close>

fun prefixItems :: "nat \<Rightarrow> txn \<Rightarrow> ((nat \<times> nat \<times> string) \<times> stored) list" where
  "prefixItems blockHeight [] = []"
| "prefixItems blockHeight ((k, v) # rest) =
     (case eventKeyBlockPrefix blockHeight k of
        None \<Rightarrow> prefixItems blockHeight rest
      | Some c \<Rightarrow> (c, v) # prefixItems blockHeight rest)"

definition iterSeek ::
  "nat \<Rightarrow> nat \<times> nat \<times> string \<Rightarrow> txn \<Rightarrow> ((nat \<times> nat \<times> string) \<times> stored) list" where
  "iterSeek blockHeight startKey t =
     dropWhile (\<lambda>item. fst item < startKey) (sort_key fst (prefixItems blockHeight t))"

fun eventsLoop ::
  "string \<Rightarrow> ((nat \<times> nat \<times> string) \<times> stored) list \<Rightarrow> Event list \<Rightarrow> error + Event list" where
  "eventsLoop eventType [] events = Inr events"
| "eventsLoop eventType ((k, b) # rest) events =
     (if eventType \<noteq> [] \<and> \<not> eventKeyHasType k eventType
      then eventsLoop eventType rest events
      else (case b of
              encEvent event \<Rightarrow> eventsLoop eventType rest (events @ [event])
            | _ \<Rightarrow> Inl ErrDecode))"

definition EventsByHeight :: "Store \<Rightarrow> nat \<Rightarrow> string \<Rightarrow> error + Event list" where
  "EventsByHeight s blockHeight eventType =
     eventsLoop eventType (iterSeek blockHeight (0, 0, []) (kv (db s))) []"

section \<open>Opening the store and jumping between snapshots\<close>

text \<open>
  The scan of \<open>setup\<close> over the changelist keys. Every register has one changelist key,
  so the order of the scan does not change the changelog it builds. A structured key
  always yields its register id, so the error for an invalid register id has no branch;
  a value that is not a changelist fails to decode.
\<close>

fun loadChangelists :: "txn \<Rightarrow> changelog \<Rightarrow> error + changelog" where
  "loadChangelists [] cl = Inr cl"
| "loadChangelists ((k, v) # rest) cl =
     (case k of
        ledgerChangelogKey registerID \<Rightarrow>
          (case v of
             encChangelist clist \<Rightarrow> loadChangelists rest (setChangelist cl registerID clist)
           | _ \<Rightarrow> Inl ErrDecode)
      | _ \<Rightarrow> loadChangelists rest cl)"

text \<open>
  \<open>setup\<close> of the source (named \<open>setupStore\<close>, \<open>setup\<close> being a keyword of Isabelle):
  the session commit, then the changelog is read from the changelists on disk. (The
  hard reset to the head commit is left out: the database is already open.)
\<close>

definition setupStore :: "Store \<Rightarrow> error option \<times> Store" where
  "setupStore s =
     (let s1 = newCommit s in
      case loadChangelists (kv (db s1)) (ledgerChangeLog s1) of
        Inl e \<Rightarrow> (Some e, s1)
      | Inr cl \<Rightarrow> (None, s1\<lparr>ledgerChangeLog := cl\<rparr>))"

text \<open>\<open>New\<close>: a store over an opened database and repository, with an empty changelog.\<close>

definition New :: "DB \<Rightarrow> Git \<Rightarrow> error + Store" where
  "New d g =
     (case setupStore \<lparr>db = d, ledgerChangeLog = newChangelog, dbGitRepository = g\<rparr> of
        (Some e, s) \<Rightarrow> Inl e
      | (None, s) \<Rightarrow> Inr s)"

text \<open>
  \<open>JumpToContext\<close>: close the database, commit, check the branch of the context out.
  When the branch does not exist it is created at the head and tagged; when it exists, a
  fresh branch (named by the uuid) is created on it and reset to the tag. Then the
  database is opened again, on the files the checkout left.
\<close>

definition JumpToContext :: "Store \<Rightarrow> string \<Rightarrow> string \<Rightarrow> Store" where
  "JumpToContext s contextName newBranchUuid =
     (let s1 = newCommit s;
          g = dbGitRepository s1;
          files = kv (db s1)
      in case map_of (branches g) contextName of
           None \<Rightarrow>
             s1\<lparr>dbGitRepository :=
                  g\<lparr>branches := AList.update contextName files (branches g),
                    tags := (case map_of (tags g) contextName of
                               None \<Rightarrow> AList.update contextName files (tags g)
                             | Some _ \<Rightarrow> tags g),
                    HEAD := contextName\<rparr>,
                db := (db s1)\<lparr>kv := files\<rparr>\<rparr>
         | Some branchFiles \<Rightarrow>
             (case map_of (tags g) contextName of
                None \<Rightarrow>
                  s1\<lparr>dbGitRepository :=
                       g\<lparr>branches := AList.update newBranchUuid branchFiles (branches g),
                         HEAD := newBranchUuid\<rparr>,
                     db := (db s1)\<lparr>kv := branchFiles\<rparr>\<rparr>
              | Some tagFiles \<Rightarrow>
                  s1\<lparr>dbGitRepository :=
                       g\<lparr>branches := AList.update newBranchUuid tagFiles (branches g),
                         HEAD := newBranchUuid\<rparr>,
                     db := (db s1)\<lparr>kv := tagFiles\<rparr>\<rparr>))"

section \<open>Commit histories\<close>

text \<open>
  A run of the store: block commits applied one after the other, stopping at the first
  error. \<open>ledgerWrites\<close> is what the run wrote to the ledger, height by height.
\<close>

record blockCommit =
  cBlock :: Block
  cCollections :: "LightCollection list"
  cTransactions :: "(Identifier \<times> TransactionBody) list"
  cResults :: "(Identifier \<times> StorableTransactionResult) list"
  cDelta :: Delta
  cEvents :: "Event list"

fun commitAll :: "Store \<Rightarrow> blockCommit list \<Rightarrow> error option \<times> Store" where
  "commitAll s [] = (None, s)"
| "commitAll s (c # cs) =
     (case CommitBlock s (cBlock c) (cCollections c) (cTransactions c) (cResults c)
             (cDelta c) (cEvents c) of
        (Some e, s1) \<Rightarrow> (Some e, s1)
      | (None, s1) \<Rightarrow> commitAll s1 cs)"

definition ledgerWrites :: "blockCommit list \<Rightarrow> (nat \<times> Delta) list" where
  "ledgerWrites cs = map (\<lambda>c. (Height (cBlock c), cDelta c)) cs"

text \<open>The value the delta committed at height \<open>c\<close> wrote to register \<open>r\<close> (\<open>None\<close>: deleted, or not written).\<close>

definition writtenValue :: "(nat \<times> Delta) list \<Rightarrow> RegisterID \<Rightarrow> nat \<Rightarrow> RegisterValue" where
  "writtenValue hist r c =
     (case map_of hist c of
        None \<Rightarrow> None
      | Some d \<Rightarrow> (case map_of d r of None \<Rightarrow> None | Some v \<Rightarrow> v))"

text \<open>The heights, in commit order, whose delta has an entry for register \<open>r\<close>.\<close>

definition touchHeights :: "(nat \<times> Delta) list \<Rightarrow> RegisterID \<Rightarrow> nat list" where
  "touchHeights hist r = map fst (filter (\<lambda>w. r \<in> fst ` set (snd w)) hist)"

text \<open>The changelog \<open>New\<close> would build from the changelists the database holds.\<close>

definition rebuildChangelog :: "Store \<Rightarrow> error + changelog" where
  "rebuildChangelog s = loadChangelists (kv (db s)) newChangelog"

section \<open>Example stores\<close>

definition emptyStore :: Store where
  "emptyStore =
     \<lparr>db = \<lparr>kv = [], refuses = (\<lambda>k. False)\<rparr>,
      ledgerChangeLog = newChangelog,
      dbGitRepository = \<lparr>branches = [], tags = [], HEAD = ''master''\<rparr>\<rparr>"

definition exampleRegister :: RegisterID where
  "exampleRegister = RegisterID ''A'' [] ''balance''"

definition otherRegister :: RegisterID where
  "otherRegister = RegisterID ''B'' [] ''balance''"

definition exampleBlock :: "nat \<Rightarrow> Block" where
  "exampleBlock h = \<lparr>BlockID = 100 + h, Height = h, ParentID = 99 + h\<rparr>"

definition deltaCommit :: "nat \<Rightarrow> Delta \<Rightarrow> blockCommit" where
  "deltaCommit h d =
     \<lparr>cBlock = exampleBlock h, cCollections = [], cTransactions = [], cResults = [],
      cDelta = d, cEvents = []\<rparr>"

definition exampleCommits :: "blockCommit list" where
  "exampleCommits =
     [deltaCommit 1 [(exampleRegister, Some [10])],
      deltaCommit 2 [(otherRegister, Some [7])],
      deltaCommit 3 [(exampleRegister, None)]]"

definition deleteCommits :: "blockCommit list" where
  "deleteCommits =
     [deltaCommit 1 [(exampleRegister, Some [10])], deltaCommit 2 [(exampleRegister, None)]]"

text \<open>
  A backend with Badger's key limit: a key longer than 65000 bytes is refused, and an
  event type of 65001 bytes makes the event key that long.
\<close>

fun oversized :: "key \<Rightarrow> bool" where
  "oversized (eventKey h t e ty) = (length ty > 65000)"
| "oversized _ = False"

definition limitedStore :: Store where
  "limitedStore = emptyStore\<lparr>db := \<lparr>kv = [], refuses = oversized\<rparr>\<rparr>"

definition longType :: string where
  "longType = replicate 65001 (CHR ''x'')"

definition longEvent :: Event where
  "longEvent = \<lparr>Type = longType, TransactionIndex = 0, EventIndex = 0, Payload = []\<rparr>"

definition failingCommit :: "error option \<times> Store" where
  "failingCommit =
     CommitBlock limitedStore (exampleBlock 1) [] [] [] [(exampleRegister, Some [10])] [longEvent]"

text \<open>
  The snapshot scenario: commit a value at height 1, jump to a new context \<open>snap\<close> (which
  tags the state), commit another value at height 2, jump back to \<open>snap\<close>, and commit a
  block at height 2 that writes another register.
\<close>

definition afterFirstCommit :: Store where
  "afterFirstCommit = snd (commitAll emptyStore [deltaCommit 1 [(exampleRegister, Some [10])]])"

definition afterSnapshot :: Store where
  "afterSnapshot = JumpToContext afterFirstCommit ''snap'' ''u1''"

definition afterSecondCommit :: Store where
  "afterSecondCommit = snd (commitAll afterSnapshot [deltaCommit 2 [(exampleRegister, Some [20])]])"

definition afterJumpBack :: Store where
  "afterJumpBack = JumpToContext afterSecondCommit ''snap'' ''u2''"

definition afterThirdCommit :: Store where
  "afterThirdCommit = snd (commitAll afterJumpBack [deltaCommit 2 [(otherRegister, Some [7])]])"

definition snapshotFiles :: txn where
  "snapshotFiles =
     [(blockKey 1, encBlock (exampleBlock 1)),
      (blockIDIndexKey 101, encUint64 1),
      (latestBlockKey, encUint64 1),
      (ledgerValueKey exampleRegister 1, raw [10]),
      (ledgerChangelogKey exampleRegister, encChangelist [1])]"

definition laterFiles :: txn where
  "laterFiles =
     [(blockKey 1, encBlock (exampleBlock 1)),
      (blockIDIndexKey 101, encUint64 1),
      (latestBlockKey, encUint64 2),
      (ledgerValueKey exampleRegister 1, raw [10]),
      (ledgerChangelogKey exampleRegister, encChangelist [1, 2]),
      (blockKey 2, encBlock (exampleBlock 2)),
      (blockIDIndexKey 102, encUint64 2),
      (ledgerValueKey exampleRegister 2, raw [20])]"

section \<open>Well-formed event entries\<close>

text \<open>
  What \<open>insertEvents\<close> keeps true of the database: every key is present once, and an
  event key holds the event whose indices and type the key is built from.
\<close>

definition eventEntryOK :: "key \<Rightarrow> stored \<Rightarrow> bool" where
  "eventEntryOK k v =
     (case k of
        eventKey h a b c \<Rightarrow>
          (case v of
             encEvent e \<Rightarrow> TransactionIndex e = a \<and> EventIndex e = b \<and> Type e = c
           | _ \<Rightarrow> False)
      | _ \<Rightarrow> True)"

definition eventsWellFormed :: "txn \<Rightarrow> bool" where
  "eventsWellFormed t = (distinct (map fst t) \<and> list_all (\<lambda>p. eventEntryOK (fst p) (snd p)) t)"

definition entryOf :: "Event \<Rightarrow> (nat \<times> nat \<times> string) \<times> stored" where
  "entryOf e = ((TransactionIndex e, EventIndex e, Type e), encEvent e)"

definition exampleEvent :: "nat \<Rightarrow> nat \<Rightarrow> string \<Rightarrow> Event" where
  "exampleEvent txIndex eventIndex eventType =
     \<lparr>Type = eventType, TransactionIndex = txIndex, EventIndex = eventIndex, Payload = []\<rparr>"

definition eventCommits :: "blockCommit list" where
  "eventCommits =
     [\<lparr>cBlock = exampleBlock 1, cCollections = [], cTransactions = [], cResults = [],
       cDelta = [],
       cEvents = [exampleEvent 1 0 ''B'', exampleEvent 0 1 ''A'', exampleEvent 0 0 ''B'']\<rparr>]"

section \<open>The pending block\<close>

text \<open>
  The outcome of running a transaction in the virtual machine (\<open>fvm.TransactionProcedure\<close>
  after \<open>vm.Run\<close>): the transaction-level error with its code, the logs and the events.
  The register writes of the run come with it.
\<close>

record TransactionProcedure =
  tpID :: Identifier
  tpErr :: "(nat \<times> string) option"
  tpLogs :: "string list"
  tpEvents :: "Event list"

type_synonym LedgerRead = "RegisterID \<Rightarrow> error + RegisterValue"

type_synonym VirtualMachine =
  "LedgerRead \<Rightarrow> nat \<Rightarrow> TransactionBody \<Rightarrow> error + (TransactionProcedure \<times> Delta)"

text \<open>
  Modelled from the spec: \<open>pendingBlock\<close> (\<open>newPendingBlock\<close>, \<open>ExecutionStarted\<close>,
  \<open>ExecutionComplete\<close>, \<open>Empty\<close>, \<open>ContainsTransaction\<close>, \<open>AddTransaction\<close>,
  \<open>ExecuteNextTransaction\<close> and the getters) is not among the sources. The specification:
  the pending block holds the header (height \<open>latest + 1\<close>, parent the latest block), the
  ordered transactions, the results, the overlay of uncommitted writes, the events and
  the index of the next transaction to run. Adding appends a transaction; executing runs
  the transaction at the index, merges its writes into the block delta, records its
  events (stamped with the index of the transaction and numbered from 0) and its result,
  and increments the index; a fatal failure of the machine leaves the block as it is.
  Execution has started when the index is above 0 (so says \<open>addTransaction\<close> in
  \<open>blockchain.go\<close> too) and is complete when the index has reached the number of
  transactions. The digest that identifies a block is opaque: the height stands for it.
\<close>

record pendingBlock =
  pbHeight :: nat
  pbParentID :: Identifier
  pbViewHeight :: nat
  pbTransactions :: "TransactionBody list"
  pbResults :: "TransactionProcedure list"
  pbDelta :: Delta
  pbEvents :: "Event list"
  index :: nat

definition newPendingBlock :: "Block \<Rightarrow> nat \<Rightarrow> pendingBlock" where
  "newPendingBlock prevBlock viewHeight =
     \<lparr>pbHeight = Height prevBlock + 1, pbParentID = BlockID prevBlock,
      pbViewHeight = viewHeight, pbTransactions = [], pbResults = [], pbDelta = [],
      pbEvents = [], index = 0\<rparr>"

definition pbID :: "pendingBlock \<Rightarrow> Identifier" where
  "pbID pb = pbHeight pb"

definition pbBlock :: "pendingBlock \<Rightarrow> Block" where
  "pbBlock pb = \<lparr>BlockID = pbID pb, Height = pbHeight pb, ParentID = pbParentID pb\<rparr>"

definition Empty :: "pendingBlock \<Rightarrow> bool" where
  "Empty pb = (pbTransactions pb = [])"

definition ExecutionStarted :: "pendingBlock \<Rightarrow> bool" where
  "ExecutionStarted pb = (index pb > 0)"

definition ExecutionComplete :: "pendingBlock \<Rightarrow> bool" where
  "ExecutionComplete pb = (index pb \<ge> length (pbTransactions pb))"

definition ContainsTransaction :: "pendingBlock \<Rightarrow> Identifier \<Rightarrow> bool" where
  "ContainsTransaction pb txID = (txID \<in> set (map TxID (pbTransactions pb)))"

definition pbAddTransaction :: "pendingBlock \<Rightarrow> TransactionBody \<Rightarrow> pendingBlock" where
  "pbAddTransaction pb tx = pb\<lparr>pbTransactions := pbTransactions pb @ [tx]\<rparr>"

definition pbCollections :: "pendingBlock \<Rightarrow> LightCollection list" where
  "pbCollections pb =
     map (\<lambda>tx. \<lparr>CollectionID = TxID tx, Transactions = [TxID tx]\<rparr>) (pbTransactions pb)"

definition pbTransactionMap :: "pendingBlock \<Rightarrow> (Identifier \<times> TransactionBody) list" where
  "pbTransactionMap pb = map (\<lambda>tx. (TxID tx, tx)) (pbTransactions pb)"

definition TransactionResults :: "pendingBlock \<Rightarrow> (Identifier \<times> TransactionProcedure) list" where
  "TransactionResults pb = map (\<lambda>tp. (tpID tp, tp)) (pbResults pb)"

text \<open>Merging the writes of a transaction: a later write to a register replaces the earlier one.\<close>

fun mergeDelta :: "Delta \<Rightarrow> Delta \<Rightarrow> Delta" where
  "mergeDelta d [] = d"
| "mergeDelta d ((r, v) # ws) = mergeDelta (AList.update r v d) ws"

fun stampEvents :: "nat \<Rightarrow> nat \<Rightarrow> Event list \<Rightarrow> Event list" where
  "stampEvents txIndex n [] = []"
| "stampEvents txIndex n (e # es) =
     e\<lparr>TransactionIndex := txIndex, EventIndex := n\<rparr> # stampEvents txIndex (Suc n) es"

text \<open>The view the machine reads: the overlay of the block first, then the ledger below it.\<close>

definition overlayView :: "pendingBlock \<Rightarrow> LedgerRead \<Rightarrow> LedgerRead" where
  "overlayView pb base r = (case map_of (pbDelta pb) r of Some v \<Rightarrow> Inr v | None \<Rightarrow> base r)"

definition pbExecuteNextTransaction ::
  "pendingBlock \<Rightarrow> LedgerRead \<Rightarrow> VirtualMachine \<Rightarrow> error + (TransactionProcedure \<times> pendingBlock)" where
  "pbExecuteNextTransaction pb base execute =
     (case drop (index pb) (pbTransactions pb) of
        [] \<Rightarrow> Inl ErrIndexOutOfRange
      | tx # _ \<Rightarrow>
          (case execute (overlayView pb base) (index pb) tx of
             Inl e \<Rightarrow> Inl e
           | Inr (tp, writes) \<Rightarrow>
               Inr (tp, pb\<lparr>index := index pb + 1,
                           pbResults := pbResults pb @ [tp],
                           pbDelta := mergeDelta (pbDelta pb) writes,
                           pbEvents := pbEvents pb @ stampEvents (index pb) 0 (tpEvents tp)\<rparr>)))"

section \<open>The blockchain facade\<close>

text \<open>
  What the facade returns to its callers: the emulator's transaction result and the
  SDK's. An SDK event carries its type and the fields of its value.
\<close>

record sdkEvent =
  sdkType :: string
  sdkFields :: "nat list"

record TransactionResult =
  trTransactionID :: Identifier
  trError :: "error option"
  trLogs :: "string list"
  trEvents :: "sdkEvent list"

definition Succeeded :: "TransactionResult \<Rightarrow> bool" where
  "Succeeded tr = (trError tr = None)"

datatype TransactionStatus =
    TransactionStatusUnknown
  | TransactionStatusPending
  | TransactionStatusFinalized
  | TransactionStatusExecuted
  | TransactionStatusSealed
  | TransactionStatusExpired

record sdkTransactionResult =
  Status :: TransactionStatus
  Error :: "error option"
  SDKEvents :: "sdkEvent list"

text \<open>
  The collaborators of the facade that are libraries or packages outside the sources:
  the virtual machine, the transaction validator (with \<open>convertAccessError\<close>), the
  converters of the \<open>convert\<close> packages, and the template and signing of the
  account-creation transaction. Each is a parameter; nothing is assumed of them.
\<close>

record Externals =
  vmRun :: VirtualMachine
  validate :: "Store \<Rightarrow> TransactionBody \<Rightarrow> error option"
  VMTransactionResultToEmulator :: "TransactionProcedure \<Rightarrow> error + TransactionResult"
  ToStorableResult :: "TransactionProcedure \<Rightarrow> error + StorableTransactionResult"
  FlowEventToSDK :: "Event \<Rightarrow> error + sdkEvent"
  createAccountTransaction :: "bytes list \<Rightarrow> bytes list \<Rightarrow> Block \<Rightarrow> error + TransactionBody"

record Blockchain =
  storage :: Store
  pendingBlock :: pendingBlock

fun FlowEventsToSDK :: "(Event \<Rightarrow> error + sdkEvent) \<Rightarrow> Event list \<Rightarrow> error + sdkEvent list" where
  "FlowEventsToSDK conv [] = Inr []"
| "FlowEventsToSDK conv (e # es) =
     (case conv e of
        Inl err \<Rightarrow> Inl err
      | Inr sdkE \<Rightarrow>
          (case FlowEventsToSDK conv es of
             Inl err \<Rightarrow> Inl err
           | Inr rest \<Rightarrow> Inr (sdkE # rest)))"

definition GetLatestBlock :: "Blockchain \<Rightarrow> error + Block" where
  "GetLatestBlock b =
     (case LatestBlock (storage b) of
        Inl e \<Rightarrow> Inl (StorageError e)
      | Inr block \<Rightarrow> Inr block)"

definition GetTransactionResult ::
  "Externals \<Rightarrow> Blockchain \<Rightarrow> Identifier \<Rightarrow> error + sdkTransactionResult" where
  "GetTransactionResult x b txID =
     (if ContainsTransaction (pendingBlock b) txID
      then Inr \<lparr>Status = TransactionStatusPending, Error = None, SDKEvents = []\<rparr>
      else
        (case TransactionResultByID (storage b) txID of
           Inl ErrNotFound \<Rightarrow>
             Inr \<lparr>Status = TransactionStatusUnknown, Error = None, SDKEvents = []\<rparr>
         | Inl e \<Rightarrow> Inl (StorageError e)
         | Inr storedResult \<Rightarrow>
             (let errResult =
                    (if ErrorCode storedResult \<noteq> 0
                     then Some (ExecutionError (ErrorCode storedResult) (ErrorMessage storedResult))
                     else None)
              in case FlowEventsToSDK (FlowEventToSDK x) (Events storedResult) of
                   Inl e \<Rightarrow> Inl e
                 | Inr sdkEvents \<Rightarrow>
                     Inr \<lparr>Status = TransactionStatusSealed, Error = errResult,
                          SDKEvents = sdkEvents\<rparr>)))"

definition addTransaction ::
  "Externals \<Rightarrow> Blockchain \<Rightarrow> TransactionBody \<Rightarrow> error option \<times> Blockchain" where
  "addTransaction x b tx =
     (if ExecutionStarted (pendingBlock b)
      then (Some (PendingBlockMidExecutionError (pbID (pendingBlock b))), b)
      else if ContainsTransaction (pendingBlock b) (TxID tx)
      then (Some (DuplicateTransactionError (TxID tx)), b)
      else
        (case TransactionByID (storage b) (TxID tx) of
           Inr _ \<Rightarrow> (Some (DuplicateTransactionError (TxID tx)), b)
         | Inl ErrNotFound \<Rightarrow>
             (case validate x (storage b) tx of
                Some e \<Rightarrow> (Some e, b)
              | None \<Rightarrow> (None, b\<lparr>pendingBlock := pbAddTransaction (pendingBlock b) tx\<rparr>))
         | Inl e \<Rightarrow> (Some (WrappedError e), b)))"

text \<open>
  \<open>executeNextTransaction\<close>. The signature diagnostics only annotate the result
  (\<open>tr.Debug\<close>) and are left out.
\<close>

definition executeNextTransaction ::
  "Externals \<Rightarrow> Blockchain \<Rightarrow> (error + TransactionResult) \<times> Blockchain" where
  "executeNextTransaction x b =
     (if ExecutionComplete (pendingBlock b)
      then (Inl (PendingBlockTransactionsExhaustedError (pbID (pendingBlock b))), b)
      else
        (case pbExecuteNextTransaction (pendingBlock b)
                (LedgerViewByHeight (storage b) (pbViewHeight (pendingBlock b))) (vmRun x) of
           Inl e \<Rightarrow> (Inl e, b)
         | Inr (tp, pb) \<Rightarrow>
             (case VMTransactionResultToEmulator x tp of
                Inl e \<Rightarrow> (Inl e, b\<lparr>pendingBlock := pb\<rparr>)
              | Inr tr \<Rightarrow> (Inr tr, b\<lparr>pendingBlock := pb\<rparr>))))"

text \<open>The loop of \<open>executeBlock\<close>: run the next transaction until execution is complete.\<close>

lemma executeNextTransaction_measure:
  assumes "\<not> ExecutionComplete (pendingBlock b)"
    and "executeNextTransaction x b = (Inr tr, b')"
  shows "length (pbTransactions (pendingBlock b')) - index (pendingBlock b')
           < length (pbTransactions (pendingBlock b)) - index (pendingBlock b)"
  using assms
  by (auto simp: executeNextTransaction_def pbExecuteNextTransaction_def ExecutionComplete_def
      split: sum.splits list.splits prod.splits)

function executeLoop ::
  "Externals \<Rightarrow> Blockchain \<Rightarrow> TransactionResult list \<Rightarrow>
   error option \<times> TransactionResult list \<times> Blockchain" where
  "executeLoop x b results =
     (if ExecutionComplete (pendingBlock b) then (None, results, b)
      else
        (case executeNextTransaction x b of
           (Inl e, b1) \<Rightarrow> (Some e, results, b1)
         | (Inr result, b1) \<Rightarrow> executeLoop x b1 (results @ [result])))"
  by pat_completeness auto
termination
  apply (relation "measure (\<lambda>(x, b, results).
    length (pbTransactions (pendingBlock b)) - index (pendingBlock b))")
   apply simp
  subgoal for x b results ra b1 tr
    using executeNextTransaction_measure [of b x tr b1] by simp
  done

definition executeBlock ::
  "Externals \<Rightarrow> Blockchain \<Rightarrow> error option \<times> TransactionResult list \<times> Blockchain" where
  "executeBlock x b =
     (if Empty (pendingBlock b) then (None, [], b)
      else if ExecutionComplete (pendingBlock b)
      then (Some (PendingBlockTransactionsExhaustedError (pbID (pendingBlock b))), [], b)
      else executeLoop x b [])"

fun convertToSealedResults ::
  "(TransactionProcedure \<Rightarrow> error + StorableTransactionResult) \<Rightarrow>
   (Identifier \<times> TransactionProcedure) list \<Rightarrow>
   error + (Identifier \<times> StorableTransactionResult) list" where
  "convertToSealedResults conv [] = Inr []"
| "convertToSealedResults conv ((txID, result) # rest) =
     (case conv result of
        Inl e \<Rightarrow> Inl e
      | Inr temp \<Rightarrow>
          (case convertToSealedResults conv rest of
             Inl e \<Rightarrow> Inl e
           | Inr output \<Rightarrow> Inr ((txID, temp) # output)))"

text \<open>
  \<open>commitBlock\<close>: the two guards on the state of the pending block, then the commit to
  storage, then a new pending block on the committed one.
\<close>

definition commitBlock :: "Externals \<Rightarrow> Blockchain \<Rightarrow> (error + Block) \<times> Blockchain" where
  "commitBlock x b =
     (if \<not> ExecutionStarted (pendingBlock b) \<and> \<not> Empty (pendingBlock b)
      then (Inl (PendingBlockCommitBeforeExecutionError (pbID (pendingBlock b))), b)
      else if ExecutionStarted (pendingBlock b) \<and> \<not> ExecutionComplete (pendingBlock b)
      then (Inl (PendingBlockMidExecutionError (pbID (pendingBlock b))), b)
      else
        (let block = pbBlock (pendingBlock b) in
         case convertToSealedResults (ToStorableResult x) (TransactionResults (pendingBlock b)) of
           Inl e \<Rightarrow> (Inl e, b)
         | Inr transactionResults \<Rightarrow>
             (case CommitBlock (storage b) block (pbCollections (pendingBlock b))
                     (pbTransactionMap (pendingBlock b)) transactionResults
                     (pbDelta (pendingBlock b)) (pbEvents (pendingBlock b)) of
                (Some e, st) \<Rightarrow> (Inl e, b\<lparr>storage := st\<rparr>)
              | (None, st) \<Rightarrow>
                  (Inr block,
                   b\<lparr>storage := st, pendingBlock := newPendingBlock block (Height block)\<rparr>))))"

definition executeAndCommitBlock ::
  "Externals \<Rightarrow> Blockchain \<Rightarrow> (error + Block) \<times> TransactionResult list \<times> Blockchain" where
  "executeAndCommitBlock x b =
     (case executeBlock x b of
        (Some e, results, b1) \<Rightarrow> (Inl e, [], b1)
      | (None, results, b1) \<Rightarrow>
          (case commitBlock x b1 of
             (Inl e, b2) \<Rightarrow> (Inl e, results, b2)
           | (Inr block, b2) \<Rightarrow> (Inr block, results, b2)))"

definition ResetPendingBlock :: "Blockchain \<Rightarrow> error option \<times> Blockchain" where
  "ResetPendingBlock b =
     (case LatestBlock (storage b) of
        Inl e \<Rightarrow> (Some (StorageError e), b)
      | Inr latestBlock \<Rightarrow>
          (None, b\<lparr>pendingBlock := newPendingBlock latestBlock (Height latestBlock)\<rparr>))"

text \<open>
  \<open>CreateAccount\<close>. The address is the first field of the first \<open>flow.AccountCreated\<close>
  event of the last result; the zero address means that no such event was found.
  (\<open>ServiceKey()\<close> only refreshes the cached service key and is left out.)
\<close>

definition EventAccountCreated :: string where
  "EventAccountCreated = ''flow.AccountCreated''"

fun findCreatedAddress :: "sdkEvent list \<Rightarrow> error + nat" where
  "findCreatedAddress [] = Inr 0"
| "findCreatedAddress (event # rest) =
     (if sdkType event = EventAccountCreated
      then (case sdkFields event of [] \<Rightarrow> Inl ErrIndexOutOfRange | a # _ \<Rightarrow> Inr a)
      else findCreatedAddress rest)"

definition CreateAccount ::
  "Externals \<Rightarrow> Blockchain \<Rightarrow> bytes list \<Rightarrow> bytes list \<Rightarrow> (error + nat) \<times> Blockchain" where
  "CreateAccount x b publicKeys contracts =
     (case GetLatestBlock b of
        Inl e \<Rightarrow> (Inl e, b)
      | Inr latestBlock \<Rightarrow>
     (case createAccountTransaction x publicKeys contracts latestBlock of
        Inl e \<Rightarrow> (Inl e, b)
      | Inr tx \<Rightarrow>
     (case addTransaction x b tx of
        (Some e, b1) \<Rightarrow> (Inl e, b1)
      | (None, b1) \<Rightarrow>
     (case executeAndCommitBlock x b1 of
        (Inl e, results, b2) \<Rightarrow> (Inl e, b2)
      | (Inr block, results, b2) \<Rightarrow>
     (case results of
        [] \<Rightarrow> (Inl ErrIndexOutOfRange, b2)
      | _ # _ \<Rightarrow>
     (let lastResult = last results in
      case commitBlock x b2 of
        (Inl e, b3) \<Rightarrow> (Inl e, b3)
      | (Inr block2, b3) \<Rightarrow>
          (case trError lastResult of
             Some e \<Rightarrow> (Inl e, b3)
           | None \<Rightarrow>
               (case findCreatedAddress (trEvents lastResult) of
                  Inl e \<Rightarrow> (Inl e, b3)
                | Inr address \<Rightarrow>
                    if address = 0 then (Inl AccountCreatedEventNotFound, b3)
                    else (Inr address, b3)))))))))"

text \<open>
  The operations that work on the current pending block without replacing it (a commit
  and a reset replace it), and a run of them.
\<close>

datatype pendingOp =
    OpAddTransaction TransactionBody
  | OpExecuteNextTransaction
  | OpExecuteBlock

fun applyOp :: "Externals \<Rightarrow> Blockchain \<Rightarrow> pendingOp \<Rightarrow> Blockchain" where
  "applyOp x b (OpAddTransaction tx) = snd (addTransaction x b tx)"
| "applyOp x b OpExecuteNextTransaction = snd (executeNextTransaction x b)"
| "applyOp x b OpExecuteBlock = snd (snd (executeBlock x b))"



section \<open>An example chain\<close>

text \<open>
  Collaborators for the examples: a machine whose every transaction succeeds, writes the
  example register and emits one account-creation event; a validator that accepts
  everything; converters that keep the fields.
\<close>

definition exampleExternals :: Externals where
  "exampleExternals =
     \<lparr>vmRun = (\<lambda>view txIndex tx.
         Inr (\<lparr>tpID = TxID tx, tpErr = None, tpLogs = [],
               tpEvents = [exampleEvent 0 0 EventAccountCreated]\<rparr>,
              [(exampleRegister, Some [10])])),
      validate = (\<lambda>s tx. None),
      VMTransactionResultToEmulator = (\<lambda>tp.
         Inr \<lparr>trTransactionID = tpID tp,
              trError = map_option (\<lambda>p. ExecutionError (fst p) (snd p)) (tpErr tp),
              trLogs = tpLogs tp,
              trEvents = map (\<lambda>e. \<lparr>sdkType = Type e, sdkFields = [1]\<rparr>) (tpEvents tp)\<rparr>),
      ToStorableResult = (\<lambda>tp.
         Inr \<lparr>ErrorCode = (case tpErr tp of None \<Rightarrow> 0 | Some p \<Rightarrow> fst p),
              ErrorMessage = (case tpErr tp of None \<Rightarrow> [] | Some p \<Rightarrow> snd p),
              Logs = tpLogs tp, Events = tpEvents tp\<rparr>),
      FlowEventToSDK = (\<lambda>e. Inr \<lparr>sdkType = Type e, sdkFields = [1]\<rparr>),
      createAccountTransaction = (\<lambda>publicKeys contracts latestBlock.
         Inr \<lparr>TxID = 7, Script = []\<rparr>)\<rparr>"

definition genesisChain :: Blockchain where
  "genesisChain =
     \<lparr>storage = snd (commitAll emptyStore [deltaCommit 0 []]),
      pendingBlock = newPendingBlock (exampleBlock 0) 0\<rparr>"

definition exampleTx :: "nat \<Rightarrow> TransactionBody" where
  "exampleTx n = \<lparr>TxID = n, Script = []\<rparr>"

definition twoPending :: Blockchain where
  "twoPending =
     snd (addTransaction exampleExternals
            (snd (addTransaction exampleExternals genesisChain (exampleTx 1))) (exampleTx 2))"

definition midChain :: Blockchain where
  "midChain = snd (executeNextTransaction exampleExternals twoPending)"

definition afterCreateAccount :: Blockchain where
  "afterCreateAccount = snd (CreateAccount exampleExternals genesisChain [] [])"

definition exampleResult :: "nat \<Rightarrow> TransactionResult" where
  "exampleResult n =
     \<lparr>trTransactionID = n, trError = None, trLogs = [],
      trEvents = [\<lparr>sdkType = EventAccountCreated, sdkFields = [1]\<rparr>]\<rparr>"

text \<open>
  A chain over the store with Badger's key limit, and a machine whose transaction emits
  the event with the long type: one transaction is added and the block is executed.
\<close>

definition longEventExternals :: Externals where
  "longEventExternals =
     exampleExternals\<lparr>vmRun := (\<lambda>view txIndex tx.
         Inr (\<lparr>tpID = TxID tx, tpErr = None, tpLogs = [], tpEvents = [longEvent]\<rparr>, []))\<rparr>"

definition limitedChain :: Blockchain where
  "limitedChain =
     snd (snd (executeBlock longEventExternals
       (snd (addTransaction longEventExternals
          \<lparr>storage = limitedStore, pendingBlock = newPendingBlock (exampleBlock 0) 0\<rparr>
          (exampleTx 1)))))"

text \<open>
  The example chain after its one transaction has been added and executed, and
  collaborators whose conversion of a result to its stored form fails.
\<close>

definition executedChain :: Blockchain where
  "executedChain =
     snd (snd (executeBlock exampleExternals
       (snd (addTransaction exampleExternals genesisChain (exampleTx 7)))))"

definition failingConversion :: Externals where
  "failingConversion = exampleExternals\<lparr>ToStorableResult := (\<lambda>tp. Inl ErrDecode)\<rparr>"

text \<open>
  A run with a refused commit, over the store with Badger's key limit. The first
  transaction writes the example register; its block is committed at height 1. The
  second writes the register again and emits the event with the long type; the commit of
  its block at height 2 is refused. The pending block is reset and committed empty.
\<close>

definition refusedEventExternals :: Externals where
  "refusedEventExternals =
     exampleExternals\<lparr>vmRun := (\<lambda>view txIndex tx.
         if TxID tx = 1
         then Inr (\<lparr>tpID = TxID tx, tpErr = None, tpLogs = [], tpEvents = []\<rparr>,
                   [(exampleRegister, Some [10])])
         else Inr (\<lparr>tpID = TxID tx, tpErr = None, tpLogs = [], tpEvents = [longEvent]\<rparr>,
                   [(exampleRegister, Some [20])]))\<rparr>"

definition chainFirst :: Blockchain where
  "chainFirst =
     snd (snd (executeAndCommitBlock refusedEventExternals
       (snd (addTransaction refusedEventExternals
          \<lparr>storage = limitedStore, pendingBlock = newPendingBlock (exampleBlock 0) 0\<rparr>
          (exampleTx 1)))))"

definition chainRefused :: "(error + Block) \<times> TransactionResult list \<times> Blockchain" where
  "chainRefused =
     executeAndCommitBlock refusedEventExternals
       (snd (addTransaction refusedEventExternals chainFirst (exampleTx 2)))"

definition chainReset :: "error option \<times> Blockchain" where
  "chainReset = ResetPendingBlock (snd (snd chainRefused))"

definition chainEmptyCommit :: "(error + Block) \<times> Blockchain" where
  "chainEmptyCommit = commitBlock refusedEventExternals (snd chainReset)"

definition firstBlock :: Block where
  "firstBlock = \<lparr>BlockID = 1, Height = 1, ParentID = 100\<rparr>"

definition firstFiles :: txn where
  "firstFiles =
     [(blockKey 1, encBlock firstBlock),
      (blockIDIndexKey 1, encUint64 1),
      (latestBlockKey, encUint64 1),
      (collectionKey 1, encCollection \<lparr>CollectionID = 1, Transactions = [1]\<rparr>),
      (transactionKey 1, encTransaction (exampleTx 1)),
      (transactionResultKey 1,
       encTransactionResult \<lparr>ErrorCode = 0, ErrorMessage = [], Logs = [], Events = []\<rparr>),
      (ledgerValueKey exampleRegister 1, raw [10]),
      (ledgerChangelogKey exampleRegister, encChangelist [1])]"

section \<open>Verification: the ledger\<close>

subsection \<open>What a block commit writes\<close>

lemma txn_Set_map_of:
  "txn_Set rf k v t = Inr t' \<Longrightarrow> map_of t' = (map_of t)(k \<mapsto> v)"
  by (auto simp: txn_Set_def update_conv' split: if_splits)

lemma store_frame:
  assumes "store rf block t = Inr t'"
    and "k \<noteq> blockKey (Height block)" "k \<noteq> blockIDIndexKey (BlockID block)" "k \<noteq> latestBlockKey"
  shows "map_of t' k = map_of t k"
  using assms
  by (auto simp: store_def split: sum.splits if_splits dest!: txn_Set_map_of)

lemma insertCollections_frame:
  "insertCollections rf cols t = Inr t' \<Longrightarrow> (\<And>i. k \<noteq> collectionKey i) \<Longrightarrow> map_of t' k = map_of t k"
proof (induction cols arbitrary: t)
  case Nil
  then show ?case by simp
next
  case (Cons col cols)
  then show ?case
    by (auto simp: insertCollection_def split: sum.splits dest!: txn_Set_map_of)
qed

lemma insertTransactions_frame:
  "insertTransactions rf txs results t = Inr t' \<Longrightarrow> (\<And>i. k \<noteq> transactionKey i) \<Longrightarrow>
   (\<And>i. k \<noteq> transactionResultKey i) \<Longrightarrow> map_of t' k = map_of t k"
proof (induction txs arbitrary: t)
  case Nil
  then show ?case by simp
next
  case (Cons p txs)
  obtain i tx where p: "p = (i, tx)" by (cases p)
  from Cons show ?case unfolding p
    by (auto simp: insertTransaction_def insertTransactionResult_def
        split: sum.splits option.splits dest!: txn_Set_map_of)
qed

lemma insertEvents_frame:
  "insertEvents rf h evs t = Inr t' \<Longrightarrow> (\<And>a b c. k \<noteq> eventKey h a b c) \<Longrightarrow> map_of t' k = map_of t k"
proof (induction evs arbitrary: t)
  case Nil
  then show ?case by simp
next
  case (Cons ev evs)
  then show ?case
    by (auto split: sum.splits dest!: txn_Set_map_of)
qed

lemma insertLedgerDelta_changelog:
  "insertLedgerDelta rf h d t cl = (None, t', cl') \<Longrightarrow> distinct (map fst d) \<Longrightarrow>
   getChangelist cl' r = (if r \<in> fst ` set d then getChangelist cl r @ [h] else getChangelist cl r)"
proof (induction d arbitrary: t cl)
  case Nil
  then show ?case by simp
next
  case (Cons p d)
  obtain r0 v where p: "p = (r0, v)" by (cases p)
  from Cons.prems obtain t2 where
    rec: "insertLedgerDelta rf h d t2 (addChange cl r0 h) = (None, t', cl')"
    unfolding p by (auto simp: Let_def split: sum.splits option.splits)
  from Cons.prems have dist: "distinct (map fst d)" and notin: "r0 \<notin> fst ` set d"
    unfolding p by auto
  have "getChangelist cl' r =
    (if r \<in> fst ` set d then getChangelist (addChange cl r0 h) r @ [h]
     else getChangelist (addChange cl r0 h) r)"
    by (rule Cons.IH [OF rec dist])
  then show ?case using notin unfolding p
    by (auto simp: addChange_def getChangelist_def)
qed

lemma insertLedgerDelta_changelog_set:
  "insertLedgerDelta rf h d t cl = (None, t', cl') \<Longrightarrow>
   set (getChangelist cl' r) = set (getChangelist cl r) \<union> (if r \<in> fst ` set d then {h} else {})"
proof (induction d arbitrary: t cl)
  case Nil
  then show ?case by simp
next
  case (Cons p d)
  obtain r0 v where p: "p = (r0, v)" by (cases p)
  from Cons.prems obtain t2 where
    rec: "insertLedgerDelta rf h d t2 (addChange cl r0 h) = (None, t', cl')"
    unfolding p by (auto simp: Let_def split: sum.splits option.splits)
  have "set (getChangelist cl' r) =
    set (getChangelist (addChange cl r0 h) r) \<union> (if r \<in> fst ` set d then {h} else {})"
    by (rule Cons.IH [OF rec])
  then show ?case unfolding p
    by (auto simp: addChange_def getChangelist_def)
qed

lemma insertLedgerDelta_value:
  "insertLedgerDelta rf h d t cl = (None, t', cl') \<Longrightarrow> distinct (map fst d) \<Longrightarrow>
   map_of t' (ledgerValueKey r c) =
     (case map_of d r of
        Some (Some b) \<Rightarrow> if c = h then Some (raw b) else map_of t (ledgerValueKey r c)
      | _ \<Rightarrow> map_of t (ledgerValueKey r c))"
proof (induction d arbitrary: t cl)
  case Nil
  then show ?case by simp
next
  case (Cons p d)
  obtain r0 v where p: "p = (r0, v)" by (cases p)
  from Cons.prems have dist: "distinct (map fst d)" and notin: "r0 \<notin> fst ` set d"
    unfolding p by auto
  from notin have none: "map_of d r0 = None"
    by (simp add: map_of_eq_None_iff)
  from Cons.prems obtain t1 t2 where
    s1: "(case v of None \<Rightarrow> Inr t | Some b \<Rightarrow> txn_Set rf (ledgerValueKey r0 h) (raw b) t) = Inr t1"
    and s2: "txn_Set rf (ledgerChangelogKey r0)
               (encChangelist (getChangelist (addChange cl r0 h) r0)) t1 = Inr t2"
    and rec: "insertLedgerDelta rf h d t2 (addChange cl r0 h) = (None, t', cl')"
    unfolding p by (auto simp: Let_def split: sum.splits)
  have t2: "map_of t2 (ledgerValueKey r c) = map_of t1 (ledgerValueKey r c)"
    using txn_Set_map_of [OF s2] by simp
  have t1: "map_of t1 (ledgerValueKey r c) =
      (case v of Some b \<Rightarrow> if r = r0 \<and> c = h then Some (raw b) else map_of t (ledgerValueKey r c)
       | None \<Rightarrow> map_of t (ledgerValueKey r c))"
    using s1 by (auto split: option.splits dest!: txn_Set_map_of)
  have ih: "map_of t' (ledgerValueKey r c) =
     (case map_of d r of
        Some (Some b) \<Rightarrow> if c = h then Some (raw b) else map_of t2 (ledgerValueKey r c)
      | _ \<Rightarrow> map_of t2 (ledgerValueKey r c))"
    by (rule Cons.IH [OF rec dist])
  show ?case
  proof (cases "r = r0")
    case True
    then show ?thesis unfolding p using ih none t2 t1
      by (auto split: option.splits)
  next
    case False
    then show ?thesis unfolding p using ih t2 t1
      by (auto split: option.splits)
  qed
qed

lemma insertLedgerDelta_value_exists:
  "insertLedgerDelta rf h d t cl = (None, t', cl') \<Longrightarrow>
   (\<exists>x. map_of t' (ledgerValueKey r c) = Some x) \<longleftrightarrow>
   (\<exists>x. map_of t (ledgerValueKey r c) = Some x) \<or> (c = h \<and> (\<exists>b. (r, Some b) \<in> set d))"
proof (induction d arbitrary: t cl)
  case Nil
  then show ?case by simp
next
  case (Cons p d)
  obtain r0 v where p: "p = (r0, v)" by (cases p)
  from Cons.prems obtain t1 t2 where
    s1: "(case v of None \<Rightarrow> Inr t | Some b \<Rightarrow> txn_Set rf (ledgerValueKey r0 h) (raw b) t) = Inr t1"
    and s2: "txn_Set rf (ledgerChangelogKey r0)
               (encChangelist (getChangelist (addChange cl r0 h) r0)) t1 = Inr t2"
    and rec: "insertLedgerDelta rf h d t2 (addChange cl r0 h) = (None, t', cl')"
    unfolding p by (auto simp: Let_def split: sum.splits)
  have t2: "map_of t2 (ledgerValueKey r c) = map_of t1 (ledgerValueKey r c)"
    using txn_Set_map_of [OF s2] by simp
  have t1: "map_of t1 (ledgerValueKey r c) =
      (case v of Some b \<Rightarrow> if r = r0 \<and> c = h then Some (raw b) else map_of t (ledgerValueKey r c)
       | None \<Rightarrow> map_of t (ledgerValueKey r c))"
    using s1 by (auto split: option.splits dest!: txn_Set_map_of)
  have ih: "(\<exists>x. map_of t' (ledgerValueKey r c) = Some x) \<longleftrightarrow>
   (\<exists>x. map_of t2 (ledgerValueKey r c) = Some x) \<or> (c = h \<and> (\<exists>b. (r, Some b) \<in> set d))"
    by (rule Cons.IH [OF rec])
  show ?case unfolding p ih t2 t1
    by (cases v) auto
qed

lemma CommitBlock_ok:
  assumes "CommitBlock s b cols txs res d evs = (None, s')"
  shows "\<exists>t3 t4 t5 cl4.
      (\<forall>r c. map_of t3 (ledgerValueKey r c) = map_of (kv (db s)) (ledgerValueKey r c)) \<and>
      insertLedgerDelta (refuses (db s)) (Height b) d t3 (ledgerChangeLog s) = (None, t4, cl4) \<and>
      (\<forall>r c. map_of t5 (ledgerValueKey r c) = map_of t4 (ledgerValueKey r c)) \<and>
      kv (db s') = t5 \<and> ledgerChangeLog s' = cl4 \<and> refuses (db s') = refuses (db s)"
proof -
  let ?rf = "refuses (db s)"
  from assms obtain s1 where
    up: "Update s (commitBlockTxn ?rf b cols txs res d evs) = (None, s1)" and s': "s' = newCommit s1"
    by (auto simp: CommitBlock_def split: if_splits prod.splits option.splits)
  from up obtain t5 cl4 where
    run: "commitBlockTxn ?rf b cols txs res d evs (kv (db s)) (ledgerChangeLog s) = (None, t5, cl4)"
    and s1: "s1 = s\<lparr>db := (db s)\<lparr>kv := t5\<rparr>, ledgerChangeLog := cl4\<rparr>"
    by (auto simp: Update_def split: prod.splits option.splits)
  from run obtain t1 t2 t3 t4 where
    a: "store ?rf b (kv (db s)) = Inr t1" and
    b: "insertCollections ?rf cols t1 = Inr t2" and
    c: "insertTransactions ?rf txs res t2 = Inr t3" and
    d: "insertLedgerDelta ?rf (Height b) d t3 (ledgerChangeLog s) = (None, t4, cl4)" and
    e: "insertEvents ?rf (Height b) evs t4 = Inr t5"
    by (auto simp: commitBlockTxn_def split: sum.splits prod.splits option.splits)
  have f3: "map_of t3 (ledgerValueKey r c) = map_of (kv (db s)) (ledgerValueKey r c)" for r c
    using store_frame [OF a, of "ledgerValueKey r c"]
      insertCollections_frame [OF b, of "ledgerValueKey r c"]
      insertTransactions_frame [OF c, of "ledgerValueKey r c"] by simp
  have f5: "map_of t5 (ledgerValueKey r c) = map_of t4 (ledgerValueKey r c)" for r c
    using insertEvents_frame [OF e, of "ledgerValueKey r c"] by simp
  show ?thesis using f3 d f5 s1 s' by (auto simp: newCommit_def)
qed

lemma CommitBlock_changelog:
  assumes "CommitBlock s b cols txs res d evs = (None, s')" "distinct (map fst d)"
  shows "getChangelist (ledgerChangeLog s') r =
     (if r \<in> fst ` set d then getChangelist (ledgerChangeLog s) r @ [Height b]
      else getChangelist (ledgerChangeLog s) r)"
  using CommitBlock_ok [OF assms(1)] insertLedgerDelta_changelog [OF _ assms(2)]
  by blast

lemma CommitBlock_changelog_set:
  assumes "CommitBlock s b cols txs res d evs = (None, s')"
  shows "set (getChangelist (ledgerChangeLog s') r) =
     set (getChangelist (ledgerChangeLog s) r) \<union> (if r \<in> fst ` set d then {Height b} else {})"
  using CommitBlock_ok [OF assms(1)] insertLedgerDelta_changelog_set
  by blast

lemma CommitBlock_value:
  assumes "CommitBlock s b cols txs res d evs = (None, s')" "distinct (map fst d)"
  shows "map_of (kv (db s')) (ledgerValueKey r c) =
     (case map_of d r of
        Some (Some v) \<Rightarrow> if c = Height b then Some (raw v) else map_of (kv (db s)) (ledgerValueKey r c)
      | _ \<Rightarrow> map_of (kv (db s)) (ledgerValueKey r c))"
proof -
  from CommitBlock_ok [OF assms(1)] obtain t3 t4 cl4 where
    f3: "\<And>r c. map_of t3 (ledgerValueKey r c) = map_of (kv (db s)) (ledgerValueKey r c)" and
    d: "insertLedgerDelta (refuses (db s)) (Height b) d t3 (ledgerChangeLog s) = (None, t4, cl4)" and
    f5: "\<And>r c. map_of (kv (db s')) (ledgerValueKey r c) = map_of t4 (ledgerValueKey r c)"
    by blast
  show ?thesis
    unfolding f5 insertLedgerDelta_value [OF d assms(2)] f3 ..
qed

lemma CommitBlock_value_exists:
  assumes "CommitBlock s b cols txs res d evs = (None, s')"
  shows "(\<exists>x. map_of (kv (db s')) (ledgerValueKey r c) = Some x) \<longleftrightarrow>
     (\<exists>x. map_of (kv (db s)) (ledgerValueKey r c) = Some x) \<or>
     (c = Height b \<and> (\<exists>v. (r, Some v) \<in> set d))"
proof -
  from CommitBlock_ok [OF assms(1)] obtain t3 t4 cl4 where
    f3: "\<And>r c. map_of t3 (ledgerValueKey r c) = map_of (kv (db s)) (ledgerValueKey r c)" and
    d: "insertLedgerDelta (refuses (db s)) (Height b) d t3 (ledgerChangeLog s) = (None, t4, cl4)" and
    f5: "\<And>r c. map_of (kv (db s')) (ledgerValueKey r c) = map_of t4 (ledgerValueKey r c)"
    by blast
  show ?thesis
    unfolding f5 insertLedgerDelta_value_exists [OF d] f3 ..
qed

lemma commitAll_Cons_ok:
  assumes "commitAll s (c # cs) = (None, s')"
  obtains s1 where
    "CommitBlock s (cBlock c) (cCollections c) (cTransactions c) (cResults c) (cDelta c) (cEvents c)
       = (None, s1)"
    "commitAll s1 cs = (None, s')"
  using assms by (auto split: prod.splits option.splits)

lemma commitAll_changelog:
  "commitAll s cs = (None, s') \<Longrightarrow> \<forall>c\<in>set cs. distinct (map fst (cDelta c)) \<Longrightarrow>
   getChangelist (ledgerChangeLog s') r =
     getChangelist (ledgerChangeLog s) r @ touchHeights (ledgerWrites cs) r"
proof (induction cs arbitrary: s)
  case Nil
  then show ?case by (simp add: touchHeights_def ledgerWrites_def)
next
  case (Cons c cs)
  from Cons.prems(1) obtain s1 where
    one: "CommitBlock s (cBlock c) (cCollections c) (cTransactions c) (cResults c) (cDelta c)
            (cEvents c) = (None, s1)" and
    rest: "commitAll s1 cs = (None, s')"
    by (rule commitAll_Cons_ok)
  from Cons.prems(2) have dc: "distinct (map fst (cDelta c))"
    and dcs: "\<forall>c\<in>set cs. distinct (map fst (cDelta c))" by auto
  show ?case
    unfolding Cons.IH [OF rest dcs] CommitBlock_changelog [OF one dc]
    by (simp add: touchHeights_def ledgerWrites_def)
qed

lemma commitAll_changelog_set:
  "commitAll s cs = (None, s') \<Longrightarrow>
   set (getChangelist (ledgerChangeLog s') r) =
     set (getChangelist (ledgerChangeLog s) r) \<union>
     {c. \<exists>d. (c, d) \<in> set (ledgerWrites cs) \<and> r \<in> fst ` set d}"
proof (induction cs arbitrary: s)
  case Nil
  then show ?case by (simp add: ledgerWrites_def)
next
  case (Cons c cs)
  from Cons.prems(1) obtain s1 where
    one: "CommitBlock s (cBlock c) (cCollections c) (cTransactions c) (cResults c) (cDelta c)
            (cEvents c) = (None, s1)" and
    rest: "commitAll s1 cs = (None, s')"
    by (rule commitAll_Cons_ok)
  show ?case
    unfolding Cons.IH [OF rest] CommitBlock_changelog_set [OF one]
    by (auto simp: ledgerWrites_def)
qed

lemma commitAll_value_exists:
  "commitAll s cs = (None, s') \<Longrightarrow>
   (\<exists>x. map_of (kv (db s')) (ledgerValueKey r c) = Some x) \<longleftrightarrow>
   (\<exists>x. map_of (kv (db s)) (ledgerValueKey r c) = Some x) \<or>
   (\<exists>d v. (c, d) \<in> set (ledgerWrites cs) \<and> (r, Some v) \<in> set d)"
proof (induction cs arbitrary: s)
  case Nil
  then show ?case by (simp add: ledgerWrites_def)
next
  case (Cons c cs)
  from Cons.prems(1) obtain s1 where
    one: "CommitBlock s (cBlock c) (cCollections c) (cTransactions c) (cResults c) (cDelta c)
            (cEvents c) = (None, s1)" and
    rest: "commitAll s1 cs = (None, s')"
    by (rule commitAll_Cons_ok)
  show ?case
    unfolding Cons.IH [OF rest] CommitBlock_value_exists [OF one]
    by (auto simp: ledgerWrites_def)
qed

lemma commitAll_value:
  "commitAll s cs = (None, s') \<Longrightarrow> \<forall>c\<in>set cs. distinct (map fst (cDelta c)) \<Longrightarrow>
   distinct (map fst (ledgerWrites cs)) \<Longrightarrow>
   map_of (kv (db s')) (ledgerValueKey r c) =
     (case map_of (ledgerWrites cs) c of
        None \<Rightarrow> map_of (kv (db s)) (ledgerValueKey r c)
      | Some d \<Rightarrow>
          (case map_of d r of
             Some (Some v) \<Rightarrow> Some (raw v)
           | _ \<Rightarrow> map_of (kv (db s)) (ledgerValueKey r c)))"
proof (induction cs arbitrary: s)
  case Nil
  then show ?case by (simp add: ledgerWrites_def)
next
  case (Cons c0 cs)
  from Cons.prems(1) obtain s1 where
    one: "CommitBlock s (cBlock c0) (cCollections c0) (cTransactions c0) (cResults c0) (cDelta c0)
            (cEvents c0) = (None, s1)" and
    rest: "commitAll s1 cs = (None, s')"
    by (rule commitAll_Cons_ok)
  from Cons.prems(2) have dc: "distinct (map fst (cDelta c0))"
    and dcs: "\<forall>c\<in>set cs. distinct (map fst (cDelta c))" by auto
  from Cons.prems(3) have dh: "distinct (map fst (ledgerWrites cs))"
    and nh: "Height (cBlock c0) \<notin> fst ` set (ledgerWrites cs)"
    by (auto simp: ledgerWrites_def)
  from nh have none: "map_of (ledgerWrites cs) (Height (cBlock c0)) = None"
    by (simp add: map_of_eq_None_iff)
  have hist: "ledgerWrites (c0 # cs) = (Height (cBlock c0), cDelta c0) # ledgerWrites cs"
    by (simp add: ledgerWrites_def)
  show ?case
    unfolding Cons.IH [OF rest dcs dh] CommitBlock_value [OF one dc] hist
    using none by (auto split: option.splits)
qed

lemma search_Max:
  "search l h = (if {c \<in> set l. c \<le> h} = {} then None else Some (Max {c \<in> set l. c \<le> h}))"
proof (induction l)
  case Nil
  then show ?case by simp
next
  case (Cons a l)
  define S where "S = {c \<in> set l. c \<le> h}"
  have fin: "finite S" by (simp add: S_def)
  have IH: "search l h = (if S = {} then None else Some (Max S))"
    using Cons.IH by (simp add: S_def)
  show ?case
  proof (cases "a \<le> h")
    case True
    then have split: "{c \<in> set (a # l). c \<le> h} = insert a S"
      by (auto simp: S_def)
    show ?thesis
    proof (cases "S = {}")
      case empty: True
      then show ?thesis unfolding split using True IH by simp
    next
      case False
      define M where "M = Max S"
      have ins: "Max (insert a S) = max a M"
        unfolding M_def using fin False by (rule Max_insert)
      have "search l h = Some M" using IH False by (simp add: M_def)
      then show ?thesis unfolding split ins using True
        by (simp add: max_def not_less)
    qed
  next
    case False
    then have split: "{c \<in> set (a # l). c \<le> h} = S"
      by (auto simp: S_def)
    show ?thesis unfolding split using False IH
      by (auto split: option.splits)
  qed
qed

lemmas store_eval =
  CommitBlock_def Update_def commitBlockTxn_def store_def getLatestBlockHeightTx_def getTx_def
  txn_Set_def newCommit_def addChange_def getChangelist_def newChangelog_def
  emptyStore_def exampleRegister_def otherRegister_def exampleBlock_def deltaCommit_def
  LedgerViewByHeight_def getMostRecentChange_def

subsection \<open>Reads through a ledger view\<close>

text \<open>
  Reads on a run of successful commits. After any run of block commits from a fresh
  store, none of which failed, at increasing heights
  and with one entry per register in each delta, the changelog of a register \<open>r\<close> lists
  the heights whose delta wrote \<open>r\<close>, in ascending order, and reading \<open>r\<close> through the
  ledger view at height \<open>h\<close> returns the value written at the greatest changelog entry
  of \<open>r\<close> that is at most \<open>h\<close> (\<open>nil\<close> when that write was a deletion), and \<open>nil\<close> (not
  found) when \<open>r\<close> has no changelog entry at or below \<open>h\<close>.
\<close>

theorem ledger_view_reads_latest_write:
  assumes run: "commitAll s0 cs = (None, s)"
    and fresh: "kv (db s0) = []" "ledgerChangeLog s0 = newChangelog"
    and heights: "sorted_wrt (<) (map fst (ledgerWrites cs))"
    and regs: "\<forall>c\<in>set cs. distinct (map fst (cDelta c))"
  shows "getChangelist (ledgerChangeLog s) r = touchHeights (ledgerWrites cs) r \<and>
         sorted_wrt (<) (getChangelist (ledgerChangeLog s) r) \<and>
         LedgerViewByHeight s h r =
           Inr (if {c \<in> set (getChangelist (ledgerChangeLog s) r). c \<le> h} = {} then None
                else writtenValue (ledgerWrites cs) r
                       (Max {c \<in> set (getChangelist (ledgerChangeLog s) r). c \<le> h}))"
proof -
  let ?hist = "ledgerWrites cs"
  let ?l = "getChangelist (ledgerChangeLog s) r"
  let ?S = "{c \<in> set ?l. c \<le> h}"
  have dh: "distinct (map fst ?hist)"
    using heights by (simp add: strict_sorted_iff)
  have cl: "?l = touchHeights ?hist r"
    using commitAll_changelog [OF run regs, of r] fresh
    by (simp add: getChangelist_def newChangelog_def)
  have srt: "sorted_wrt (<) ?l"
    unfolding cl touchHeights_def using heights
    by (simp add: sorted_wrt_map sorted_wrt_filter)
  have old: "map_of (kv (db s0)) k = None" for k
    using fresh by simp
  have val: "map_of (kv (db s)) (ledgerValueKey r c) =
     (case map_of ?hist c of
        None \<Rightarrow> None
      | Some d \<Rightarrow> (case map_of d r of Some (Some v) \<Rightarrow> Some (raw v) | _ \<Rightarrow> None))" for c
    unfolding commitAll_value [OF run regs dh] old ..
  have mrc: "getMostRecentChange (ledgerChangeLog s) r h = search ?l h"
    by (simp add: getMostRecentChange_def getChangelist_def split: option.splits)
  have view: "LedgerViewByHeight s h r =
      Inr (if ?S = {} then None else writtenValue ?hist r (Max ?S))"
  proof (cases "?S = {}")
    case True
    then show ?thesis
      unfolding LedgerViewByHeight_def mrc search_Max by simp
  next
    case False
    let ?c = "Max ?S"
    have "map_of (kv (db s)) (ledgerValueKey r ?c) =
        (case writtenValue ?hist r ?c of None \<Rightarrow> None | Some v \<Rightarrow> Some (raw v))"
      unfolding val writtenValue_def by (auto split: option.splits)
    then show ?thesis
      unfolding LedgerViewByHeight_def mrc search_Max using False
      by (auto simp: getTx_def split: option.splits)
  qed
  from cl srt view show ?thesis by blast
qed

theorem ledger_view_reads_latest_write_witness:
  "commitAll emptyStore exampleCommits = (None, snd (commitAll emptyStore exampleCommits)) \<and>
   sorted_wrt (<) (map fst (ledgerWrites exampleCommits)) \<and>
   getChangelist (ledgerChangeLog (snd (commitAll emptyStore exampleCommits))) exampleRegister = [1, 3] \<and>
   writtenValue (ledgerWrites exampleCommits) exampleRegister 1 = Some [10] \<and>
   LedgerViewByHeight (snd (commitAll emptyStore exampleCommits)) 2 exampleRegister = Inr (Some [10]) \<and>
   LedgerViewByHeight (snd (commitAll emptyStore exampleCommits)) 3 exampleRegister = Inr None \<and>
   LedgerViewByHeight (snd (commitAll emptyStore exampleCommits)) 0 exampleRegister = Inr None"
proof -
  let ?s = "snd (commitAll emptyStore exampleCommits)"
  have run: "commitAll emptyStore exampleCommits = (None, ?s)"
    by (simp add: exampleCommits_def store_eval)
  have fresh: "kv (db emptyStore) = []" "ledgerChangeLog emptyStore = newChangelog"
    by (simp_all add: emptyStore_def)
  have heights: "sorted_wrt (<) (map fst (ledgerWrites exampleCommits))"
    by (simp add: exampleCommits_def ledgerWrites_def deltaCommit_def exampleBlock_def)
  have regs: "\<forall>c\<in>set exampleCommits. distinct (map fst (cDelta c))"
    by (simp add: exampleCommits_def deltaCommit_def)
  have touch: "touchHeights (ledgerWrites exampleCommits) exampleRegister = [1, 3]"
    by (simp add: touchHeights_def exampleCommits_def ledgerWrites_def deltaCommit_def
        exampleBlock_def exampleRegister_def otherRegister_def)
  have wv1: "writtenValue (ledgerWrites exampleCommits) exampleRegister 1 = Some [10]"
    and wv3: "writtenValue (ledgerWrites exampleCommits) exampleRegister 3 = None"
    by (simp_all add: writtenValue_def exampleCommits_def ledgerWrites_def deltaCommit_def
        exampleBlock_def exampleRegister_def otherRegister_def)
  note inst = ledger_view_reads_latest_write [OF run fresh heights regs, of exampleRegister]
  have cl: "getChangelist (ledgerChangeLog ?s) exampleRegister = [1, 3]"
    using inst [of 0] touch by simp
  have s2: "{c \<in> set [1, 3 :: nat]. c \<le> 2} = {1}" by auto
  have s3: "{c \<in> set [1, 3 :: nat]. c \<le> 3} = {1, 3}" by auto
  have s0: "{c \<in> set [1, 3 :: nat]. c \<le> 0} = {}" by auto
  have v2: "LedgerViewByHeight ?s 2 exampleRegister = Inr (Some [10])"
    using inst [of 2] wv1 unfolding cl s2 by simp
  have v3: "LedgerViewByHeight ?s 3 exampleRegister = Inr None"
    using inst [of 3] wv3 unfolding cl s3 by simp
  have v0: "LedgerViewByHeight ?s 0 exampleRegister = Inr None"
    using inst [of 0] unfolding cl s0 by simp
  from run heights cl wv1 v2 v3 v0 show ?thesis by blast
qed

subsection \<open>Value entries behind the changelog\<close>

text \<open>
  Claim C3, as the source has it: a deletion claims a changelog entry and writes no value.
  After the commits of a value at height 1 and of a deletion at height 2, the changelog
  of the register is \<open>[1, 2]\<close> and no value entry exists at height 2: the read of the
  key is \<open>ErrNotFound\<close>, not an entry with empty bytes.
\<close>

theorem deletion_writes_no_value_entry:
  "fst (commitAll emptyStore deleteCommits) = None \<and>
   getChangelist (ledgerChangeLog (snd (commitAll emptyStore deleteCommits))) exampleRegister = [1, 2] \<and>
   getTx (kv (db (snd (commitAll emptyStore deleteCommits)))) (ledgerValueKey exampleRegister 2)
     = Inl ErrNotFound"
  by (simp add: deleteCommits_def store_eval)

text \<open>
  Claim C3, amended. After any run of block commits from a fresh store, a height \<open>c\<close> is
  in the changelog of a register \<open>r\<close> exactly when a delta committed at \<open>c\<close> has an
  entry for \<open>r\<close>, and a value entry exists at \<open>(r, c)\<close> exactly when a delta committed
  at \<open>c\<close> wrote a value (not a deletion) to \<open>r\<close>.
\<close>

theorem value_entry_iff_value_written:
  assumes run: "commitAll s0 cs = (None, s)"
    and fresh: "kv (db s0) = []" "ledgerChangeLog s0 = newChangelog"
  shows "(c \<in> set (getChangelist (ledgerChangeLog s) r) \<longleftrightarrow>
            (\<exists>d. (c, d) \<in> set (ledgerWrites cs) \<and> r \<in> fst ` set d)) \<and>
         ((\<exists>x. getTx (kv (db s)) (ledgerValueKey r c) = Inr x) \<longleftrightarrow>
            (\<exists>d v. (c, d) \<in> set (ledgerWrites cs) \<and> (r, Some v) \<in> set d))"
proof -
  have a: "set (getChangelist (ledgerChangeLog s) r) =
      {c. \<exists>d. (c, d) \<in> set (ledgerWrites cs) \<and> r \<in> fst ` set d}"
    using commitAll_changelog_set [OF run, of r] fresh
    by (simp add: getChangelist_def newChangelog_def)
  have b: "(\<exists>x. map_of (kv (db s)) (ledgerValueKey r c) = Some x) \<longleftrightarrow>
      (\<exists>d v. (c, d) \<in> set (ledgerWrites cs) \<and> (r, Some v) \<in> set d)"
    using commitAll_value_exists [OF run, of r c] fresh by simp
  have g: "(\<exists>x. getTx (kv (db s)) (ledgerValueKey r c) = Inr x) \<longleftrightarrow>
      (\<exists>x. map_of (kv (db s)) (ledgerValueKey r c) = Some x)"
    by (auto simp: getTx_def split: option.splits)
  show ?thesis unfolding g b using a by blast
qed

theorem value_entry_iff_value_written_witness:
  "commitAll emptyStore deleteCommits = (None, snd (commitAll emptyStore deleteCommits)) \<and>
   1 \<in> set (getChangelist (ledgerChangeLog (snd (commitAll emptyStore deleteCommits))) exampleRegister) \<and>
   2 \<in> set (getChangelist (ledgerChangeLog (snd (commitAll emptyStore deleteCommits))) exampleRegister) \<and>
   (\<exists>x. getTx (kv (db (snd (commitAll emptyStore deleteCommits)))) (ledgerValueKey exampleRegister 1) = Inr x) \<and>
   \<not> (\<exists>x. getTx (kv (db (snd (commitAll emptyStore deleteCommits)))) (ledgerValueKey exampleRegister 2) = Inr x)"
proof -
  let ?s = "snd (commitAll emptyStore deleteCommits)"
  have run: "commitAll emptyStore deleteCommits = (None, ?s)"
    by (simp add: deleteCommits_def store_eval)
  have fresh: "kv (db emptyStore) = []" "ledgerChangeLog emptyStore = newChangelog"
    by (simp_all add: emptyStore_def)
  have hist: "ledgerWrites deleteCommits =
      [(1, [(exampleRegister, Some [10])]), (2, [(exampleRegister, None)])]"
    by (simp add: deleteCommits_def ledgerWrites_def deltaCommit_def exampleBlock_def)
  note inst = value_entry_iff_value_written [OF run fresh, of _ exampleRegister, unfolded hist]
  have c1: "1 \<in> set (getChangelist (ledgerChangeLog ?s) exampleRegister)"
    using inst [of 1] by simp
  have c2: "2 \<in> set (getChangelist (ledgerChangeLog ?s) exampleRegister)"
    using inst [of 2] by simp
  have v1: "\<exists>x. getTx (kv (db ?s)) (ledgerValueKey exampleRegister 1) = Inr x"
    using inst [of 1] by simp
  have v2: "\<not> (\<exists>x. getTx (kv (db ?s)) (ledgerValueKey exampleRegister 2) = Inr x)"
    using inst [of 2] by simp
  from run c1 c2 v1 v2 show ?thesis by blast
qed

subsection \<open>A commit that fails\<close>

lemma length_longType: "length longType = 65001"
  by (simp only: longType_def length_replicate)

text \<open>
  Claim C4 at a failing commit. The block at height 1 writes the example register and
  carries an event whose key the backend refuses. \<open>CommitBlock\<close> returns the error of
  the refused write and the database is unchanged, but the in-memory changelog has
  gained the entry for height 1.
\<close>

theorem failed_commit_changes_changelog:
  "fst failingCommit = Some (ErrSetFailed (eventKey 1 0 0 (Type longEvent))) \<and>
   kv (db (snd failingCommit)) = kv (db limitedStore) \<and>
   ledgerChangeLog limitedStore exampleRegister = None \<and>
   ledgerChangeLog (snd failingCommit) exampleRegister = Some [1]"
  by (simp add: failingCommit_def limitedStore_def longEvent_def length_longType store_eval)

subsection \<open>Jumping to a snapshot\<close>

lemma afterFirstCommit_eq:
  "afterFirstCommit =
     \<lparr>db = \<lparr>kv = snapshotFiles, refuses = (\<lambda>k. False)\<rparr>,
      ledgerChangeLog = [exampleRegister \<mapsto> [1]],
      dbGitRepository = \<lparr>branches = [(''master'', snapshotFiles)], tags = [], HEAD = ''master''\<rparr>\<rparr>"
  by (simp add: afterFirstCommit_def snapshotFiles_def store_eval)

lemma afterSnapshot_eq:
  "afterSnapshot =
     \<lparr>db = \<lparr>kv = snapshotFiles, refuses = (\<lambda>k. False)\<rparr>,
      ledgerChangeLog = [exampleRegister \<mapsto> [1]],
      dbGitRepository =
        \<lparr>branches = [(''master'', snapshotFiles), (''snap'', snapshotFiles)],
         tags = [(''snap'', snapshotFiles)], HEAD = ''snap''\<rparr>\<rparr>"
  by (simp add: afterSnapshot_def afterFirstCommit_eq JumpToContext_def newCommit_def)

lemma afterSecondCommit_eq:
  "afterSecondCommit =
     \<lparr>db = \<lparr>kv = laterFiles, refuses = (\<lambda>k. False)\<rparr>,
      ledgerChangeLog = [exampleRegister \<mapsto> [1, 2]],
      dbGitRepository =
        \<lparr>branches = [(''master'', snapshotFiles), (''snap'', laterFiles)],
         tags = [(''snap'', snapshotFiles)], HEAD = ''snap''\<rparr>\<rparr>"
  by (simp add: afterSecondCommit_def afterSnapshot_eq snapshotFiles_def laterFiles_def
      CommitBlock_def Update_def commitBlockTxn_def store_def getLatestBlockHeightTx_def getTx_def
      txn_Set_def newCommit_def addChange_def getChangelist_def exampleBlock_def deltaCommit_def
      exampleRegister_def)

lemma afterJumpBack_eq:
  "afterJumpBack =
     \<lparr>db = \<lparr>kv = snapshotFiles, refuses = (\<lambda>k. False)\<rparr>,
      ledgerChangeLog = [exampleRegister \<mapsto> [1, 2]],
      dbGitRepository =
        \<lparr>branches = [(''master'', snapshotFiles), (''snap'', laterFiles), (''u2'', snapshotFiles)],
         tags = [(''snap'', snapshotFiles)], HEAD = ''u2''\<rparr>\<rparr>"
  by (simp add: afterJumpBack_def afterSecondCommit_eq JumpToContext_def newCommit_def)

lemma afterThirdCommit_read:
  "LedgerViewByHeight afterThirdCommit 2 exampleRegister = Inr None \<and>
   LedgerViewByHeight afterThirdCommit 1 exampleRegister = Inr (Some [10])"
  by (simp add: afterThirdCommit_def afterJumpBack_eq snapshotFiles_def otherRegister_def
      CommitBlock_def Update_def commitBlockTxn_def store_def getLatestBlockHeightTx_def getTx_def
      txn_Set_def newCommit_def addChange_def getChangelist_def exampleBlock_def deltaCommit_def
      exampleRegister_def LedgerViewByHeight_def getMostRecentChange_def)

text \<open>
  Claim C2 at the snapshot scenario. After the jump back to \<open>snap\<close> the database holds
  the changelist \<open>[1]\<close> for the example register, so a rebuild gives \<open>[1]\<close>, and so
  does \<open>New\<close> on the reopened database; the in-memory changelog still has \<open>[1, 2]\<close>. After one more commit at height 2 (of another
  register) the view at height 2 reads the example register as \<open>nil\<close>, though its value
  at height 1 is still stored.
\<close>

theorem jump_keeps_stale_changelog:
  "rebuildChangelog afterJumpBack = Inr [exampleRegister \<mapsto> [1]] \<and>
   (case New (db afterJumpBack) (dbGitRepository afterJumpBack) of
      Inl e \<Rightarrow> None
    | Inr s \<Rightarrow> ledgerChangeLog s exampleRegister) = Some [1] \<and>
   ledgerChangeLog afterJumpBack = [exampleRegister \<mapsto> [1, 2]] \<and>
   ledgerChangeLog afterJumpBack exampleRegister \<noteq> [exampleRegister \<mapsto> [1]] exampleRegister \<and>
   LedgerViewByHeight afterThirdCommit 2 exampleRegister = Inr None \<and>
   LedgerViewByHeight afterThirdCommit 1 exampleRegister = Inr (Some [10])"
  using afterThirdCommit_read
  by (simp add: afterJumpBack_eq rebuildChangelog_def snapshotFiles_def setChangelist_def
      newChangelog_def New_def setupStore_def newCommit_def)

section \<open>Verification: the events of a block\<close>

subsection \<open>Event entries stay well formed\<close>

lemma set_update_subset: "set (AList.update k v t) \<subseteq> insert (k, v) (set t)"
  by (induction t) auto

lemma txn_Set_wf:
  assumes "txn_Set rf k v t = Inr t'" "eventsWellFormed t" "eventEntryOK k v"
  shows "eventsWellFormed t'"
proof -
  from assms(1) have t': "t' = AList.update k v t"
    by (auto simp: txn_Set_def split: if_splits)
  have "distinct (map fst t')"
    unfolding t' using assms(2) by (simp add: eventsWellFormed_def distinct_update)
  moreover have "\<forall>p\<in>set t'. eventEntryOK (fst p) (snd p)"
    using set_update_subset [of k v t] assms(2,3) unfolding t'
    by (auto simp: eventsWellFormed_def list_all_iff)
  ultimately show ?thesis by (simp add: eventsWellFormed_def list_all_iff)
qed

lemma txn_Set_wf_imp:
  "txn_Set rf k v t = Inr t' \<Longrightarrow> eventsWellFormed t \<and> eventEntryOK k v \<longrightarrow> eventsWellFormed t'"
  using txn_Set_wf by blast

lemma store_wf: "store rf b t = Inr t' \<Longrightarrow> eventsWellFormed t \<Longrightarrow> eventsWellFormed t'"
  by (auto simp: store_def eventEntryOK_def split: sum.splits if_splits dest!: txn_Set_wf_imp)

lemma insertCollections_wf:
  "insertCollections rf cols t = Inr t' \<Longrightarrow> eventsWellFormed t \<Longrightarrow> eventsWellFormed t'"
  by (induction cols arbitrary: t)
     (auto simp: insertCollection_def eventEntryOK_def split: sum.splits dest!: txn_Set_wf_imp)

lemma insertTransactions_wf:
  "insertTransactions rf txs res t = Inr t' \<Longrightarrow> eventsWellFormed t \<Longrightarrow> eventsWellFormed t'"
proof (induction txs arbitrary: t)
  case Nil
  then show ?case by simp
next
  case (Cons p txs)
  obtain i tx where p: "p = (i, tx)" by (cases p)
  from Cons show ?case unfolding p
    by (auto simp: insertTransaction_def insertTransactionResult_def eventEntryOK_def
        split: sum.splits option.splits dest!: txn_Set_wf_imp)
qed

lemma insertLedgerDelta_wf:
  "insertLedgerDelta rf h d t cl = (None, t', cl') \<Longrightarrow> eventsWellFormed t \<Longrightarrow> eventsWellFormed t'"
proof (induction d arbitrary: t cl)
  case Nil
  then show ?case by simp
next
  case (Cons p d)
  obtain r v where p: "p = (r, v)" by (cases p)
  from Cons show ?case unfolding p
    by (auto simp: Let_def eventEntryOK_def split: sum.splits option.splits dest!: txn_Set_wf_imp)
qed

lemma insertEvents_wf:
  "insertEvents rf h evs t = Inr t' \<Longrightarrow> eventsWellFormed t \<Longrightarrow> eventsWellFormed t'"
  by (induction evs arbitrary: t)
     (auto simp: eventEntryOK_def split: sum.splits dest!: txn_Set_wf_imp)

lemma CommitBlock_steps:
  assumes "CommitBlock s b cols txs res d evs = (None, s')"
  obtains t1 t2 t3 t4 t5 cl4 where
    "store (refuses (db s)) b (kv (db s)) = Inr t1"
    "insertCollections (refuses (db s)) cols t1 = Inr t2"
    "insertTransactions (refuses (db s)) txs res t2 = Inr t3"
    "insertLedgerDelta (refuses (db s)) (Height b) d t3 (ledgerChangeLog s) = (None, t4, cl4)"
    "insertEvents (refuses (db s)) (Height b) evs t4 = Inr t5"
    "s' = newCommit (s\<lparr>db := (db s)\<lparr>kv := t5\<rparr>, ledgerChangeLog := cl4\<rparr>)"
proof -
  let ?rf = "refuses (db s)"
  from assms obtain s1 where
    up: "Update s (commitBlockTxn ?rf b cols txs res d evs) = (None, s1)" and s': "s' = newCommit s1"
    by (auto simp: CommitBlock_def split: if_splits prod.splits option.splits)
  from up obtain t5 cl4 where
    run: "commitBlockTxn ?rf b cols txs res d evs (kv (db s)) (ledgerChangeLog s) = (None, t5, cl4)"
    and s1: "s1 = s\<lparr>db := (db s)\<lparr>kv := t5\<rparr>, ledgerChangeLog := cl4\<rparr>"
    by (auto simp: Update_def split: prod.splits option.splits)
  from run obtain t1 t2 t3 t4 where
    "store ?rf b (kv (db s)) = Inr t1"
    "insertCollections ?rf cols t1 = Inr t2"
    "insertTransactions ?rf txs res t2 = Inr t3"
    "insertLedgerDelta ?rf (Height b) d t3 (ledgerChangeLog s) = (None, t4, cl4)"
    "insertEvents ?rf (Height b) evs t4 = Inr t5"
    by (auto simp: commitBlockTxn_def split: sum.splits prod.splits option.splits)
  then show ?thesis using that s' s1 by blast
qed

lemma CommitBlock_wf:
  assumes "CommitBlock s b cols txs res d evs = (None, s')" "eventsWellFormed (kv (db s))"
  shows "eventsWellFormed (kv (db s'))"
proof -
  from assms(1) obtain t1 t2 t3 t4 t5 cl4 where
    a: "store (refuses (db s)) b (kv (db s)) = Inr t1" and
    b: "insertCollections (refuses (db s)) cols t1 = Inr t2" and
    c: "insertTransactions (refuses (db s)) txs res t2 = Inr t3" and
    d: "insertLedgerDelta (refuses (db s)) (Height b) d t3 (ledgerChangeLog s) = (None, t4, cl4)" and
    e: "insertEvents (refuses (db s)) (Height b) evs t4 = Inr t5" and
    s': "s' = newCommit (s\<lparr>db := (db s)\<lparr>kv := t5\<rparr>, ledgerChangeLog := cl4\<rparr>)"
    by (rule CommitBlock_steps)
  have "eventsWellFormed t1" by (rule store_wf [OF a assms(2)])
  then have "eventsWellFormed t2" by (rule insertCollections_wf [OF b])
  then have "eventsWellFormed t3" by (rule insertTransactions_wf [OF c])
  then have "eventsWellFormed t4" by (rule insertLedgerDelta_wf [OF d])
  then have "eventsWellFormed t5" by (rule insertEvents_wf [OF e])
  then show ?thesis by (simp add: s' newCommit_def)
qed

lemma commitAll_wf:
  "commitAll s cs = (None, s') \<Longrightarrow> eventsWellFormed (kv (db s)) \<Longrightarrow> eventsWellFormed (kv (db s'))"
proof (induction cs arbitrary: s)
  case Nil
  then show ?case by simp
next
  case (Cons c cs)
  from Cons.prems(1) obtain s1 where
    one: "CommitBlock s (cBlock c) (cCollections c) (cTransactions c) (cResults c) (cDelta c)
            (cEvents c) = (None, s1)" and
    rest: "commitAll s1 cs = (None, s')"
    by (rule commitAll_Cons_ok)
  show ?case
    by (rule Cons.IH [OF rest CommitBlock_wf [OF one Cons.prems(2)]])
qed

subsection \<open>The iterator over a height\<close>

lemma set_prefixItems:
  "set (prefixItems h t) = {(c, v). (eventKey h (fst c) (fst (snd c)) (snd (snd c)), v) \<in> set t}"
proof (induction t)
  case Nil
  then show ?case by simp
next
  case (Cons p t)
  obtain k v where p: "p = (k, v)" by (cases p)
  show ?case unfolding p using Cons.IH
    by (cases k) (auto split: if_splits)
qed

lemma distinct_prefixItems:
  "distinct (map fst t) \<Longrightarrow> distinct (map fst (prefixItems h t))"
proof (induction t)
  case Nil
  then show ?case by simp
next
  case (Cons p t)
  obtain k v where p: "p = (k, v)" by (cases p)
  from Cons show ?case unfolding p
    by (cases k) (force simp: set_prefixItems split: if_splits)+
qed

lemma no_key_below_start: "\<not> (k :: nat \<times> nat \<times> string) < (0, 0, [])"
  by (cases k) auto

lemma iterSeek_start:
  "iterSeek h (0, 0, []) t = sort_key fst (prefixItems h t)"
proof -
  have "dropWhile (\<lambda>item. fst item < (0, 0, [])) xs = xs"
    for xs :: "((nat \<times> nat \<times> string) \<times> stored) list"
    by (cases xs) (simp_all add: no_key_below_start)
  then show ?thesis by (simp add: iterSeek_def)
qed

lemma eventsLoop_entries:
  "eventsLoop ty (map entryOf es) acc = Inr (acc @ filter (\<lambda>e. ty = [] \<or> Type e = ty) es)"
  by (induction es arbitrary: acc) (auto simp: entryOf_def eventKeyHasType_def)

lemma wf_items_entries:
  assumes "eventsWellFormed t"
  shows "\<forall>x\<in>set (prefixItems h t). \<exists>e. x = entryOf e"
proof
  fix x assume "x \<in> set (prefixItems h t)"
  then obtain a b c v where x: "x = ((a, b, c), v)" and mem: "(eventKey h a b c, v) \<in> set t"
    by (auto simp: set_prefixItems)
  from assms mem have "eventEntryOK (eventKey h a b c) v"
    by (auto simp: eventsWellFormed_def list_all_iff)
  then show "\<exists>e. x = entryOf e" unfolding x
    by (auto simp: eventEntryOK_def entryOf_def split: stored.splits)
qed

lemma EventsByHeight_entries:
  assumes wf: "eventsWellFormed (kv (db s))"
  obtains es where
    "sort_key fst (prefixItems h (kv (db s))) = map entryOf es"
    "EventsByHeight s h ty = Inr (filter (\<lambda>e. ty = [] \<or> Type e = ty) es)"
proof -
  let ?items = "sort_key fst (prefixItems h (kv (db s)))"
  have "\<forall>x\<in>set ?items. \<exists>e. x = entryOf e"
    using wf_items_entries [OF wf, of h] by simp
  then obtain es where es: "?items = map entryOf es"
    by (metis ex_map_conv)
  have "EventsByHeight s h ty = Inr (filter (\<lambda>e. ty = [] \<or> Type e = ty) es)"
    unfolding EventsByHeight_def iterSeek_start es eventsLoop_entries by simp
  with es show ?thesis by (rule that)
qed

lemma key_pair_mono:
  "(a, b, c) \<le> (a', b', c') \<Longrightarrow> (a, b) \<le> (a' :: nat, b' :: nat)"
  for c c' :: string
  by auto

text \<open>
  Claim C9. After any run of block commits from a fresh store, for every height \<open>h\<close> and
  type filter, \<open>EventsByHeight\<close> returns a list that holds exactly the events stored
  under the event keys of height \<open>h\<close> whose type is the filter (all of them when the
  filter is empty), each once, in ascending order of \<open>(tx_index, event_index)\<close>.
\<close>

theorem events_by_height_sorted_and_complete:
  assumes run: "commitAll s0 cs = (None, s)" and fresh: "kv (db s0) = []"
  shows "\<exists>events. EventsByHeight s h ty = Inr events \<and>
      set events =
        {e. (\<exists>a b c. getTx (kv (db s)) (eventKey h a b c) = Inr (encEvent e)) \<and>
            (ty = [] \<or> Type e = ty)} \<and>
      sorted (map (\<lambda>e. (TransactionIndex e, EventIndex e)) events) \<and>
      distinct events"
proof -
  let ?t = "kv (db s)"
  have wf: "eventsWellFormed ?t"
    using commitAll_wf [OF run] fresh by (simp add: eventsWellFormed_def)
  then have dist: "distinct (map fst ?t)"
    and ok: "\<And>k v. (k, v) \<in> set ?t \<Longrightarrow> eventEntryOK k v"
    by (auto simp: eventsWellFormed_def list_all_iff)
  from wf obtain es where
    es: "sort_key fst (prefixItems h ?t) = map entryOf es" and
    res: "EventsByHeight s h ty = Inr (filter (\<lambda>e. ty = [] \<or> Type e = ty) es)"
    by (rule EventsByHeight_entries)
  let ?keyOf = "\<lambda>e. (TransactionIndex e, EventIndex e, Type e)"
  have keys: "map fst (sort_key fst (prefixItems h ?t)) = map ?keyOf es"
    unfolding es by (simp add: entryOf_def comp_def)
  have srt: "sorted (map ?keyOf es)"
    unfolding keys [symmetric] by simp
  have dk: "distinct (map ?keyOf es)"
  proof -
    have "distinct (map fst (prefixItems h ?t))"
      by (rule distinct_prefixItems [OF dist])
    then have "distinct (map fst (sort_key fst (prefixItems h ?t)))"
      by (simp add: distinct_map)
    then show ?thesis unfolding keys .
  qed
  have des: "distinct es"
    using dk by (simp add: distinct_map)
  have mem: "e \<in> set es \<longleftrightarrow> (\<exists>a b c. getTx ?t (eventKey h a b c) = Inr (encEvent e))" for e
  proof
    assume "e \<in> set es"
    then have "entryOf e \<in> set (sort_key fst (prefixItems h ?t))"
      unfolding es by simp
    then have "(eventKey h (TransactionIndex e) (EventIndex e) (Type e), encEvent e) \<in> set ?t"
      by (simp add: set_prefixItems entryOf_def)
    then have "map_of ?t (eventKey h (TransactionIndex e) (EventIndex e) (Type e)) = Some (encEvent e)"
      using dist by simp
    then have "getTx ?t (eventKey h (TransactionIndex e) (EventIndex e) (Type e)) = Inr (encEvent e)"
      by (simp add: getTx_def)
    then show "\<exists>a b c. getTx ?t (eventKey h a b c) = Inr (encEvent e)"
      by blast
  next
    assume "\<exists>a b c. getTx ?t (eventKey h a b c) = Inr (encEvent e)"
    then obtain a b c where "map_of ?t (eventKey h a b c) = Some (encEvent e)"
      by (auto simp: getTx_def split: option.splits)
    then have m: "(eventKey h a b c, encEvent e) \<in> set ?t"
      by (rule map_of_SomeD)
    from ok [OF m] have "a = TransactionIndex e" "b = EventIndex e" "c = Type e"
      by (auto simp: eventEntryOK_def)
    with m have "entryOf e \<in> set (prefixItems h ?t)"
      by (simp add: set_prefixItems entryOf_def)
    then have "entryOf e \<in> set (map entryOf es)"
      unfolding es [symmetric] by simp
    then show "e \<in> set es"
      by (auto simp: entryOf_def)
  qed
  have s2: "sorted_wrt (\<lambda>e e'. (TransactionIndex e, EventIndex e) \<le> (TransactionIndex e', EventIndex e')) es"
    using srt unfolding sorted_map
    by (rule sorted_wrt_mono_rel [rotated]) auto
  have "sorted (map (\<lambda>e. (TransactionIndex e, EventIndex e)) (filter (\<lambda>e. ty = [] \<or> Type e = ty) es))"
    unfolding sorted_map using s2 by (rule sorted_wrt_filter)
  moreover have "distinct (filter (\<lambda>e. ty = [] \<or> Type e = ty) es)"
    using des by simp
  moreover have "set (filter (\<lambda>e. ty = [] \<or> Type e = ty) es) =
      {e. (\<exists>a b c. getTx ?t (eventKey h a b c) = Inr (encEvent e)) \<and> (ty = [] \<or> Type e = ty)}"
    using mem by auto
  ultimately show ?thesis using res by blast
qed

lemma eventCommits_run:
  "commitAll emptyStore eventCommits =
     (None, emptyStore\<lparr>db := \<lparr>kv =
        [(blockKey 1, encBlock (exampleBlock 1)),
         (blockIDIndexKey 101, encUint64 1),
         (latestBlockKey, encUint64 1),
         (eventKey 1 1 0 ''B'', encEvent (exampleEvent 1 0 ''B'')),
         (eventKey 1 0 1 ''A'', encEvent (exampleEvent 0 1 ''A'')),
         (eventKey 1 0 0 ''B'', encEvent (exampleEvent 0 0 ''B''))], refuses = (\<lambda>k. False)\<rparr>,
       dbGitRepository := \<lparr>branches = [(''master'',
        [(blockKey 1, encBlock (exampleBlock 1)),
         (blockIDIndexKey 101, encUint64 1),
         (latestBlockKey, encUint64 1),
         (eventKey 1 1 0 ''B'', encEvent (exampleEvent 1 0 ''B'')),
         (eventKey 1 0 1 ''A'', encEvent (exampleEvent 0 1 ''A'')),
         (eventKey 1 0 0 ''B'', encEvent (exampleEvent 0 0 ''B''))])], tags = [], HEAD = ''master''\<rparr>\<rparr>)"
  by (simp add: eventCommits_def exampleEvent_def store_eval)

lemma eventCommits_all:
  "EventsByHeight (snd (commitAll emptyStore eventCommits)) 1 [] =
     Inr [exampleEvent 0 0 ''B'', exampleEvent 0 1 ''A'', exampleEvent 1 0 ''B'']"
  unfolding eventCommits_run
  by (simp add: EventsByHeight_def iterSeek_def exampleEvent_def eventKeyHasType_def emptyStore_def)

lemma eventCommits_B:
  "EventsByHeight (snd (commitAll emptyStore eventCommits)) 1 ''B'' =
     Inr [exampleEvent 0 0 ''B'', exampleEvent 1 0 ''B'']"
  unfolding eventCommits_run
  by (simp add: EventsByHeight_def iterSeek_def exampleEvent_def eventKeyHasType_def emptyStore_def)

theorem events_by_height_sorted_and_complete_witness:
  "commitAll emptyStore eventCommits = (None, snd (commitAll emptyStore eventCommits)) \<and>
   EventsByHeight (snd (commitAll emptyStore eventCommits)) 1 ''B'' =
     Inr [exampleEvent 0 0 ''B'', exampleEvent 1 0 ''B''] \<and>
   set [exampleEvent 0 0 ''B'', exampleEvent 1 0 ''B''] =
     {e. (\<exists>a b c. getTx (kv (db (snd (commitAll emptyStore eventCommits)))) (eventKey 1 a b c)
                     = Inr (encEvent e)) \<and> (''B'' = [] \<or> Type e = ''B'')}"
proof -
  let ?s = "snd (commitAll emptyStore eventCommits)"
  have run: "commitAll emptyStore eventCommits = (None, ?s)"
    unfolding eventCommits_run by simp
  have fresh: "kv (db emptyStore) = []"
    by (simp add: emptyStore_def)
  from events_by_height_sorted_and_complete [OF run fresh, of 1 "''B''"]
  show ?thesis using run eventCommits_B by auto
qed

section \<open>Verification: the facade\<close>

subsection \<open>What a commit leaves in the block store\<close>

lemma insertLedgerDelta_frame:
  "insertLedgerDelta rf h d t cl = (None, t', cl') \<Longrightarrow> (\<And>r c. k \<noteq> ledgerValueKey r c) \<Longrightarrow>
   (\<And>r. k \<noteq> ledgerChangelogKey r) \<Longrightarrow> map_of t' k = map_of t k"
proof (induction d arbitrary: t cl)
  case Nil
  then show ?case by simp
next
  case (Cons p d)
  obtain r v where p: "p = (r, v)" by (cases p)
  from Cons show ?case unfolding p
    by (auto simp: Let_def split: sum.splits option.splits dest!: txn_Set_map_of)
qed

lemma store_block:
  assumes "store rf b t = Inr t'"
  shows "map_of t' (blockKey (Height b)) = Some (encBlock b)"
  using assms
  by (auto simp: store_def split: sum.splits if_splits dest!: txn_Set_map_of)



lemma LatestBlock_height:
  "LatestBlock s = Inr latest \<Longrightarrow> \<exists>H. getLatestBlockHeightTx (kv (db s)) = Inr H"
  by (auto simp: LatestBlock_def split: sum.splits)

lemma CommitBlock_block_stored:
  assumes ok: "CommitBlock s b cols txs res d evs = (None, s')"
  shows "getTx (kv (db s')) (blockKey (Height b)) = Inr (encBlock b)"
proof -
  from ok obtain t1 t2 t3 t4 t5 cl4 where
    a: "store (refuses (db s)) b (kv (db s)) = Inr t1" and
    b: "insertCollections (refuses (db s)) cols t1 = Inr t2" and
    c: "insertTransactions (refuses (db s)) txs res t2 = Inr t3" and
    d: "insertLedgerDelta (refuses (db s)) (Height b) d t3 (ledgerChangeLog s) = (None, t4, cl4)" and
    e: "insertEvents (refuses (db s)) (Height b) evs t4 = Inr t5" and
    s': "s' = newCommit (s\<lparr>db := (db s)\<lparr>kv := t5\<rparr>, ledgerChangeLog := cl4\<rparr>)"
    by (rule CommitBlock_steps)
  have "map_of t5 (blockKey (Height b)) = map_of t1 (blockKey (Height b))"
    using insertCollections_frame [OF b, of "blockKey (Height b)"]
      insertTransactions_frame [OF c, of "blockKey (Height b)"]
      insertLedgerDelta_frame [OF d, of "blockKey (Height b)"]
      insertEvents_frame [OF e, of "blockKey (Height b)"]
    by auto
  then show ?thesis
    using store_block [OF a] by (simp add: getTx_def s' newCommit_def)
qed

subsection \<open>What the facade operations keep\<close>

lemma addTransaction_keeps:
  assumes "addTransaction x b tx = (e, b')"
  shows "storage b' = storage b \<and> pbHeight (pendingBlock b') = pbHeight (pendingBlock b) \<and>
         index (pendingBlock b') = index (pendingBlock b)"
  using assms
  by (auto simp: addTransaction_def pbAddTransaction_def
      split: if_splits sum.splits error.splits option.splits)

lemma executeNextTransaction_keeps:
  assumes "executeNextTransaction x b = (r, b')"
  shows "storage b' = storage b \<and> pbHeight (pendingBlock b') = pbHeight (pendingBlock b) \<and>
         pbTransactions (pendingBlock b') = pbTransactions (pendingBlock b) \<and>
         index (pendingBlock b) \<le> index (pendingBlock b')"
  using assms
  by (auto simp: executeNextTransaction_def pbExecuteNextTransaction_def
      split: if_splits sum.splits list.splits prod.splits)

lemma executeNextTransaction_started:
  assumes "executeNextTransaction x b = (Inr tr, b')"
  shows "ExecutionStarted (pendingBlock b')"
  using assms
  by (auto simp: executeNextTransaction_def pbExecuteNextTransaction_def ExecutionStarted_def
      split: if_splits sum.splits list.splits prod.splits)

lemma executeLoop_keeps:
  "executeLoop x b rs = (e, rs', b') \<Longrightarrow>
   storage b' = storage b \<and> pbHeight (pendingBlock b') = pbHeight (pendingBlock b) \<and>
   pbTransactions (pendingBlock b') = pbTransactions (pendingBlock b) \<and>
   index (pendingBlock b) \<le> index (pendingBlock b') \<and>
   (e = None \<longrightarrow> ExecutionComplete (pendingBlock b'))"
proof (induction x b rs rule: executeLoop.induct)
  case (1 x b results)
  show ?case
  proof (cases "ExecutionComplete (pendingBlock b)")
    case True
    with "1.prems" show ?thesis by simp
  next
    case False
    obtain r b1 where step: "executeNextTransaction x b = (r, b1)"
      by (cases "executeNextTransaction x b")
    note keep = executeNextTransaction_keeps [OF step]
    show ?thesis
    proof (cases r)
      case (Inl err)
      with False step "1.prems" keep show ?thesis by auto
    next
      case (Inr tr)
      with False step "1.prems" have rec: "executeLoop x b1 (results @ [tr]) = (e, rs', b')"
        by simp
      from "1.IH" [OF False step [symmetric] Inr rec] keep
      show ?thesis by auto
    qed
  qed
qed

lemma executeBlock_keeps:
  assumes "executeBlock x b = (e, rs, b')"
  shows "storage b' = storage b \<and> pbHeight (pendingBlock b') = pbHeight (pendingBlock b) \<and>
   pbTransactions (pendingBlock b') = pbTransactions (pendingBlock b) \<and>
   index (pendingBlock b) \<le> index (pendingBlock b')"
proof (cases "Empty (pendingBlock b) \<or> ExecutionComplete (pendingBlock b)")
  case True
  with assms show ?thesis by (auto simp: executeBlock_def split: if_splits)
next
  case False
  with assms have "executeLoop x b [] = (e, rs, b')"
    by (simp add: executeBlock_def)
  from executeLoop_keeps [OF this] show ?thesis by simp
qed


lemmas facade_eval =
  exampleExternals_def genesisChain_def exampleTx_def exampleEvent_def EventAccountCreated_def
  addTransaction_def executeNextTransaction_def pbExecuteNextTransaction_def executeBlock_def
  commitBlock_def executeAndCommitBlock_def CreateAccount_def GetLatestBlock_def LatestBlock_def
  TransactionByID_def TransactionResultByID_def GetTransactionResult_def
  newPendingBlock_def pbID_def pbBlock_def Empty_def ExecutionStarted_def ExecutionComplete_def
  ContainsTransaction_def pbAddTransaction_def pbCollections_def pbTransactionMap_def
  TransactionResults_def overlayView_def insertCollection_def insertTransaction_def
  insertTransactionResult_def Succeeded_def

lemma genesis_storage:
  "storage genesisChain =
     \<lparr>db = \<lparr>kv = [(blockKey 0, encBlock (exampleBlock 0)),
                   (blockIDIndexKey 100, encUint64 0),
                   (latestBlockKey, encUint64 0)], refuses = (\<lambda>k. False)\<rparr>,
      ledgerChangeLog = Map.empty,
      dbGitRepository = \<lparr>branches = [(''master'',
                  [(blockKey 0, encBlock (exampleBlock 0)),
                   (blockIDIndexKey 100, encUint64 0),
                   (latestBlockKey, encUint64 0)])], tags = [], HEAD = ''master''\<rparr>\<rparr>"
  by (simp add: genesisChain_def store_eval)

lemma twoPending_eq:
  "twoPending = genesisChain\<lparr>pendingBlock :=
      (newPendingBlock (exampleBlock 0) 0)\<lparr>pbTransactions := [exampleTx 1, exampleTx 2]\<rparr>\<rparr>"
  by (simp add: twoPending_def facade_eval store_eval)

lemma midChain_step:
  "executeNextTransaction exampleExternals twoPending = (Inr (exampleResult 1), midChain)"
  by (simp add: midChain_def twoPending_eq exampleResult_def facade_eval store_eval)

lemma midChain_pending:
  "index (pendingBlock midChain) = 1 \<and>
   pbTransactions (pendingBlock midChain) = [exampleTx 1, exampleTx 2] \<and>
   pbHeight (pendingBlock midChain) = 1"
  by (simp add: midChain_def twoPending_eq facade_eval store_eval)

lemma afterCreateAccount_facts:
  "fst (CreateAccount exampleExternals genesisChain [] []) = Inr 1 \<and>
   pendingBlock afterCreateAccount = newPendingBlock (exampleBlock 2\<lparr>BlockID := 2, ParentID := 1\<rparr>) 2 \<and>
   TransactionByID (storage afterCreateAccount) 7 = Inr (exampleTx 7) \<and>
   TransactionResultByID (storage afterCreateAccount) 7 =
     Inr \<lparr>ErrorCode = 0, ErrorMessage = [], Logs = [],
          Events = [exampleEvent 0 0 EventAccountCreated]\<rparr> \<and>
   getLatestBlockHeightTx (kv (db (storage afterCreateAccount))) = Inr 2"
  by (simp add: afterCreateAccount_def facade_eval store_eval Let_def)

subsection \<open>Committing the pending block\<close>

lemma allowed_no_guard:
  assumes "Empty pb \<or> ExecutionComplete pb"
  shows "\<not> (\<not> ExecutionStarted pb \<and> \<not> Empty pb) \<and>
         \<not> (ExecutionStarted pb \<and> \<not> ExecutionComplete pb)"
  using assms
  by (cases "pbTransactions pb") (auto simp: ExecutionStarted_def ExecutionComplete_def Empty_def)

lemma executedChain_pending:
  "pendingBlock executedChain =
     (newPendingBlock (exampleBlock 0) 0)
       \<lparr>pbTransactions := [exampleTx 7],
        pbResults := [\<lparr>tpID = 7, tpErr = None, tpLogs = [],
                       tpEvents = [exampleEvent 0 0 EventAccountCreated]\<rparr>],
        pbDelta := [(exampleRegister, Some [10])],
        pbEvents := [exampleEvent 0 0 EventAccountCreated],
        index := 1\<rparr> \<and>
   storage executedChain = storage genesisChain"
  by (simp add: executedChain_def facade_eval store_eval)

lemma limitedChain_pending:
  "pendingBlock limitedChain =
     (newPendingBlock (exampleBlock 0) 0)
       \<lparr>pbTransactions := [exampleTx 1],
        pbResults := [\<lparr>tpID = 1, tpErr = None, tpLogs = [], tpEvents = [longEvent]\<rparr>],
        pbDelta := [],
        pbEvents := [longEvent],
        index := 1\<rparr> \<and>
   storage limitedChain = limitedStore"
  by (simp add: limitedChain_def longEventExternals_def limitedStore_def longEvent_def
      facade_eval store_eval)

text \<open>
  Claim C5, as the source has it: the facade also fails in an allowed state, when the
  store does. On the chain whose only transaction has been executed (execution started
  and complete) and emitted the event with the long type, \<open>commitBlock\<close> returns the
  error of the write the backend refused.
\<close>

theorem commitBlock_passes_store_error:
  "ExecutionStarted (pendingBlock limitedChain) \<and> ExecutionComplete (pendingBlock limitedChain) \<and>
   fst (commitBlock longEventExternals limitedChain) = Inl (ErrSetFailed (eventKey 1 0 0 longType))"
  by (simp add: limitedChain_def longEventExternals_def limitedStore_def longEvent_def
      length_longType facade_eval store_eval Let_def)

text \<open>
  Claim C5, amended. \<open>commitBlock\<close> of the facade looks at the state of the pending block:
  when execution has started and is not complete it returns the mid-execution error;
  when the block is not empty and execution has not started it returns the
  commit-before-execution error; in both cases nothing changes. Otherwise (the block is
  empty, or all its transactions have been executed) no guard fires: the sealed block
  goes to the store, and when the store takes it, the facade returns the block, the
  block is persisted under its height, and a new pending block is put on top of it.
  When the conversion of the results fails, its error is returned and nothing changes;
  when the store returns an error, that error is returned, the facade keeps the store as
  the failed commit left it, and the pending block stays.
\<close>

theorem commitBlock_state_guards:
  "(ExecutionStarted (pendingBlock b) \<and> \<not> ExecutionComplete (pendingBlock b) \<longrightarrow>
      commitBlock x b = (Inl (PendingBlockMidExecutionError (pbID (pendingBlock b))), b)) \<and>
   (\<not> ExecutionStarted (pendingBlock b) \<and> \<not> Empty (pendingBlock b) \<longrightarrow>
      commitBlock x b = (Inl (PendingBlockCommitBeforeExecutionError (pbID (pendingBlock b))), b)) \<and>
   ((Empty (pendingBlock b) \<or> ExecutionComplete (pendingBlock b)) \<and>
    convertToSealedResults (ToStorableResult x) (TransactionResults (pendingBlock b)) = Inr rs \<and>
    CommitBlock (storage b) (pbBlock (pendingBlock b)) (pbCollections (pendingBlock b))
      (pbTransactionMap (pendingBlock b)) rs (pbDelta (pendingBlock b)) (pbEvents (pendingBlock b))
      = (None, st) \<longrightarrow>
      commitBlock x b =
        (Inr (pbBlock (pendingBlock b)),
         b\<lparr>storage := st,
           pendingBlock := newPendingBlock (pbBlock (pendingBlock b)) (pbHeight (pendingBlock b))\<rparr>) \<and>
      getTx (kv (db st)) (blockKey (pbHeight (pendingBlock b))) = Inr (encBlock (pbBlock (pendingBlock b)))) \<and>
   ((Empty (pendingBlock b) \<or> ExecutionComplete (pendingBlock b)) \<and>
    convertToSealedResults (ToStorableResult x) (TransactionResults (pendingBlock b)) = Inl e \<longrightarrow>
      commitBlock x b = (Inl e, b)) \<and>
   ((Empty (pendingBlock b) \<or> ExecutionComplete (pendingBlock b)) \<and>
    convertToSealedResults (ToStorableResult x) (TransactionResults (pendingBlock b)) = Inr rs \<and>
    CommitBlock (storage b) (pbBlock (pendingBlock b)) (pbCollections (pendingBlock b))
      (pbTransactionMap (pendingBlock b)) rs (pbDelta (pendingBlock b)) (pbEvents (pendingBlock b))
      = (Some e, st) \<longrightarrow>
      commitBlock x b = (Inl e, b\<lparr>storage := st\<rparr>))"
proof (intro conjI impI)
  assume "ExecutionStarted (pendingBlock b) \<and> \<not> ExecutionComplete (pendingBlock b)"
  then show "commitBlock x b = (Inl (PendingBlockMidExecutionError (pbID (pendingBlock b))), b)"
    by (auto simp: commitBlock_def ExecutionStarted_def ExecutionComplete_def Empty_def)
next
  assume "\<not> ExecutionStarted (pendingBlock b) \<and> \<not> Empty (pendingBlock b)"
  then show "commitBlock x b =
      (Inl (PendingBlockCommitBeforeExecutionError (pbID (pendingBlock b))), b)"
    by (simp add: commitBlock_def)
next
  assume h: "(Empty (pendingBlock b) \<or> ExecutionComplete (pendingBlock b)) \<and>
    convertToSealedResults (ToStorableResult x) (TransactionResults (pendingBlock b)) = Inr rs \<and>
    CommitBlock (storage b) (pbBlock (pendingBlock b)) (pbCollections (pendingBlock b))
      (pbTransactionMap (pendingBlock b)) rs (pbDelta (pendingBlock b)) (pbEvents (pendingBlock b))
      = (None, st)"
  with allowed_no_guard [of "pendingBlock b"] show "commitBlock x b =
        (Inr (pbBlock (pendingBlock b)),
         b\<lparr>storage := st,
           pendingBlock := newPendingBlock (pbBlock (pendingBlock b)) (pbHeight (pendingBlock b))\<rparr>)"
    by (auto simp: commitBlock_def Let_def pbBlock_def)
next
  assume h: "(Empty (pendingBlock b) \<or> ExecutionComplete (pendingBlock b)) \<and>
    convertToSealedResults (ToStorableResult x) (TransactionResults (pendingBlock b)) = Inr rs \<and>
    CommitBlock (storage b) (pbBlock (pendingBlock b)) (pbCollections (pendingBlock b))
      (pbTransactionMap (pendingBlock b)) rs (pbDelta (pendingBlock b)) (pbEvents (pendingBlock b))
      = (None, st)"
  then have "getTx (kv (db st)) (blockKey (Height (pbBlock (pendingBlock b))))
      = Inr (encBlock (pbBlock (pendingBlock b)))"
    by (blast intro: CommitBlock_block_stored)
  then show "getTx (kv (db st)) (blockKey (pbHeight (pendingBlock b)))
      = Inr (encBlock (pbBlock (pendingBlock b)))"
    by (simp add: pbBlock_def)
next
  assume h: "(Empty (pendingBlock b) \<or> ExecutionComplete (pendingBlock b)) \<and>
    convertToSealedResults (ToStorableResult x) (TransactionResults (pendingBlock b)) = Inl e"
  with allowed_no_guard [of "pendingBlock b"] show "commitBlock x b = (Inl e, b)"
    by (auto simp: commitBlock_def Let_def)
next
  assume h: "(Empty (pendingBlock b) \<or> ExecutionComplete (pendingBlock b)) \<and>
    convertToSealedResults (ToStorableResult x) (TransactionResults (pendingBlock b)) = Inr rs \<and>
    CommitBlock (storage b) (pbBlock (pendingBlock b)) (pbCollections (pendingBlock b))
      (pbTransactionMap (pendingBlock b)) rs (pbDelta (pendingBlock b)) (pbEvents (pendingBlock b))
      = (Some e, st)"
  with allowed_no_guard [of "pendingBlock b"] show "commitBlock x b = (Inl e, b\<lparr>storage := st\<rparr>)"
    by (auto simp: commitBlock_def Let_def)
qed

theorem commitBlock_state_guards_witness:
  "commitBlock exampleExternals midChain = (Inl (PendingBlockMidExecutionError 1), midChain) \<and>
   commitBlock exampleExternals twoPending =
     (Inl (PendingBlockCommitBeforeExecutionError 1), twoPending) \<and>
   fst (commitBlock exampleExternals genesisChain) = Inr (exampleBlock 0\<lparr>BlockID := 1, Height := 1, ParentID := 100\<rparr>) \<and>
   getTx (kv (db (storage (snd (commitBlock exampleExternals genesisChain))))) (blockKey 1) =
     Inr (encBlock (exampleBlock 0\<lparr>BlockID := 1, Height := 1, ParentID := 100\<rparr>)) \<and>
   ExecutionStarted (pendingBlock executedChain) \<and>
   fst (commitBlock exampleExternals executedChain) =
     Inr (exampleBlock 0\<lparr>BlockID := 1, Height := 1, ParentID := 100\<rparr>) \<and>
   getTx (kv (db (storage (snd (commitBlock exampleExternals executedChain))))) (blockKey 1) =
     Inr (encBlock (exampleBlock 0\<lparr>BlockID := 1, Height := 1, ParentID := 100\<rparr>)) \<and>
   commitBlock failingConversion executedChain = (Inl ErrDecode, executedChain) \<and>
   fst (commitBlock longEventExternals limitedChain) = Inl (ErrSetFailed (eventKey 1 0 0 longType)) \<and>
   pendingBlock (snd (commitBlock longEventExternals limitedChain)) = pendingBlock limitedChain"
proof -
  let ?x = exampleExternals
  have mid: "ExecutionStarted (pendingBlock midChain) \<and> \<not> ExecutionComplete (pendingBlock midChain)"
    using midChain_pending by (simp add: ExecutionStarted_def ExecutionComplete_def)
  have midID: "pbID (pendingBlock midChain) = 1"
    using midChain_pending by (simp add: pbID_def)
  have a: "commitBlock ?x midChain = (Inl (PendingBlockMidExecutionError 1), midChain)"
    using commitBlock_state_guards [of midChain ?x] mid midID by simp
  have two: "\<not> ExecutionStarted (pendingBlock twoPending) \<and> \<not> Empty (pendingBlock twoPending)"
    by (simp add: twoPending_eq ExecutionStarted_def Empty_def newPendingBlock_def)
  have twoID: "pbID (pendingBlock twoPending) = 1"
    by (simp add: twoPending_eq pbID_def newPendingBlock_def exampleBlock_def)
  have b: "commitBlock ?x twoPending = (Inl (PendingBlockCommitBeforeExecutionError 1), twoPending)"
    using commitBlock_state_guards [of twoPending ?x] two twoID by simp
  let ?pb = "pendingBlock genesisChain"
  let ?st = "snd (CommitBlock (storage genesisChain) (pbBlock ?pb) (pbCollections ?pb)
      (pbTransactionMap ?pb) [] (pbDelta ?pb) (pbEvents ?pb))"
  have empty: "Empty ?pb \<or> ExecutionComplete ?pb"
    by (simp add: genesisChain_def Empty_def newPendingBlock_def)
  have conv: "convertToSealedResults (ToStorableResult ?x) (TransactionResults ?pb) = Inr []"
    by (simp add: genesisChain_def TransactionResults_def newPendingBlock_def)
  have cb: "CommitBlock (storage genesisChain) (pbBlock ?pb) (pbCollections ?pb)
      (pbTransactionMap ?pb) [] (pbDelta ?pb) (pbEvents ?pb) = (None, ?st)"
    by (simp add: genesis_storage prod_eq_iff)
       (simp add: genesisChain_def facade_eval store_eval)
  have blk: "pbBlock ?pb = exampleBlock 0\<lparr>BlockID := 1, Height := 1, ParentID := 100\<rparr>"
    and h: "pbHeight ?pb = 1"
    by (simp_all add: genesisChain_def facade_eval exampleBlock_def)
  from commitBlock_state_guards [of genesisChain ?x "[]" ?st] empty conv cb
  have "commitBlock ?x genesisChain =
      (Inr (pbBlock ?pb), genesisChain\<lparr>storage := ?st,
         pendingBlock := newPendingBlock (pbBlock ?pb) (pbHeight ?pb)\<rparr>) \<and>
      getTx (kv (db ?st)) (blockKey (pbHeight ?pb)) = Inr (encBlock (pbBlock ?pb))"
    by blast
  then have c: "fst (commitBlock ?x genesisChain) = Inr (pbBlock ?pb)"
    and d: "getTx (kv (db (storage (snd (commitBlock ?x genesisChain))))) (blockKey (pbHeight ?pb))
      = Inr (encBlock (pbBlock ?pb))"
    by simp_all
  let ?pe = "pendingBlock executedChain"
  let ?rs = "[(7, \<lparr>ErrorCode = 0, ErrorMessage = [], Logs = [],
                    Events = [exampleEvent 0 0 EventAccountCreated]\<rparr>)]"
  let ?se = "snd (CommitBlock (storage executedChain) (pbBlock ?pe) (pbCollections ?pe)
      (pbTransactionMap ?pe) ?rs (pbDelta ?pe) (pbEvents ?pe))"
  have started: "ExecutionStarted ?pe"
    and complete: "Empty ?pe \<or> ExecutionComplete ?pe"
    by (simp_all add: executedChain_pending ExecutionStarted_def ExecutionComplete_def
        newPendingBlock_def)
  have conve: "convertToSealedResults (ToStorableResult ?x) (TransactionResults ?pe) = Inr ?rs"
    by (simp add: executedChain_pending TransactionResults_def newPendingBlock_def
        exampleExternals_def)
  have cbe: "CommitBlock (storage executedChain) (pbBlock ?pe) (pbCollections ?pe)
      (pbTransactionMap ?pe) ?rs (pbDelta ?pe) (pbEvents ?pe) = (None, ?se)"
    by (simp add: prod_eq_iff executedChain_pending genesis_storage)
       (simp add: facade_eval store_eval)
  have blke: "pbBlock ?pe = exampleBlock 0\<lparr>BlockID := 1, Height := 1, ParentID := 100\<rparr>"
    and he: "pbHeight ?pe = 1"
    by (simp_all add: executedChain_pending facade_eval exampleBlock_def)
  from commitBlock_state_guards [of executedChain ?x ?rs ?se] complete conve cbe
  have "commitBlock ?x executedChain =
      (Inr (pbBlock ?pe), executedChain\<lparr>storage := ?se,
         pendingBlock := newPendingBlock (pbBlock ?pe) (pbHeight ?pe)\<rparr>) \<and>
      getTx (kv (db ?se)) (blockKey (pbHeight ?pe)) = Inr (encBlock (pbBlock ?pe))"
    by blast
  then have e: "fst (commitBlock ?x executedChain) = Inr (pbBlock ?pe)"
    and f: "getTx (kv (db (storage (snd (commitBlock ?x executedChain))))) (blockKey (pbHeight ?pe))
      = Inr (encBlock (pbBlock ?pe))"
    by simp_all
  have convf: "convertToSealedResults (ToStorableResult failingConversion) (TransactionResults ?pe)
      = Inl ErrDecode"
    by (simp add: executedChain_pending TransactionResults_def newPendingBlock_def
        failingConversion_def)
  from commitBlock_state_guards [of executedChain failingConversion _ _ ErrDecode] complete convf
  have g: "commitBlock failingConversion executedChain = (Inl ErrDecode, executedChain)"
    by blast
  let ?pl = "pendingBlock limitedChain"
  let ?rl = "[(1, \<lparr>ErrorCode = 0, ErrorMessage = [], Logs = [], Events = [longEvent]\<rparr>)]"
  let ?sl = "snd (CommitBlock (storage limitedChain) (pbBlock ?pl) (pbCollections ?pl)
      (pbTransactionMap ?pl) ?rl (pbDelta ?pl) (pbEvents ?pl))"
  have completel: "Empty ?pl \<or> ExecutionComplete ?pl"
    by (simp add: limitedChain_pending ExecutionComplete_def newPendingBlock_def)
  have convl: "convertToSealedResults (ToStorableResult longEventExternals) (TransactionResults ?pl)
      = Inr ?rl"
    by (simp add: limitedChain_pending TransactionResults_def newPendingBlock_def
        longEventExternals_def exampleExternals_def)
  have cbl: "CommitBlock (storage limitedChain) (pbBlock ?pl) (pbCollections ?pl)
      (pbTransactionMap ?pl) ?rl (pbDelta ?pl) (pbEvents ?pl)
      = (Some (ErrSetFailed (eventKey 1 0 0 longType)), ?sl)"
    by (simp add: prod_eq_iff limitedChain_pending)
       (simp add: limitedStore_def longEvent_def length_longType facade_eval store_eval)
  from commitBlock_state_guards [of limitedChain longEventExternals ?rl ?sl
      "ErrSetFailed (eventKey 1 0 0 longType)"] completel convl cbl
  have "commitBlock longEventExternals limitedChain =
      (Inl (ErrSetFailed (eventKey 1 0 0 longType)), limitedChain\<lparr>storage := ?sl\<rparr>)"
    by blast
  then have i: "fst (commitBlock longEventExternals limitedChain)
      = Inl (ErrSetFailed (eventKey 1 0 0 longType))"
    and j: "pendingBlock (snd (commitBlock longEventExternals limitedChain)) = pendingBlock limitedChain"
    by simp_all
  from a b c d started e f g i j show ?thesis unfolding blk h blke he by simp
qed

subsection \<open>Adding a transaction\<close>

text \<open>
  Claim C6. While execution of the pending block has not started, adding a transaction
  whose id is already in the pending block, or under which the store already holds a
  transaction, returns \<open>DuplicateTransactionError\<close> and leaves the facade (the pending
  block with it) unchanged.
\<close>

theorem addTransaction_rejects_duplicate:
  assumes "\<not> ExecutionStarted (pendingBlock b)"
    and "ContainsTransaction (pendingBlock b) (TxID tx) \<or>
         (\<exists>stored. TransactionByID (storage b) (TxID tx) = Inr stored)"
  shows "addTransaction x b tx = (Some (DuplicateTransactionError (TxID tx)), b)"
  using assms by (auto simp: addTransaction_def)

theorem addTransaction_rejects_duplicate_witness:
  "addTransaction exampleExternals twoPending (exampleTx 1) =
     (Some (DuplicateTransactionError 1), twoPending) \<and>
   addTransaction exampleExternals afterCreateAccount (exampleTx 7) =
     (Some (DuplicateTransactionError 7), afterCreateAccount)"
proof -
  have n1: "\<not> ExecutionStarted (pendingBlock twoPending)"
    by (simp add: twoPending_eq ExecutionStarted_def newPendingBlock_def)
  have c1: "ContainsTransaction (pendingBlock twoPending) (TxID (exampleTx 1))"
    by (simp add: twoPending_eq ContainsTransaction_def newPendingBlock_def exampleTx_def)
  have n2: "\<not> ExecutionStarted (pendingBlock afterCreateAccount)"
    using afterCreateAccount_facts by (simp add: ExecutionStarted_def newPendingBlock_def)
  have c2: "\<exists>stored. TransactionByID (storage afterCreateAccount) (TxID (exampleTx 7)) = Inr stored"
    using afterCreateAccount_facts by (simp add: exampleTx_def)
  from addTransaction_rejects_duplicate [OF n1 disjI1 [OF c1], of exampleExternals]
    addTransaction_rejects_duplicate [OF n2 disjI2 [OF c2], of exampleExternals]
  show ?thesis by (simp add: exampleTx_def)
qed

lemma applyOp_started:
  assumes "ExecutionStarted (pendingBlock b)"
  shows "ExecutionStarted (pendingBlock (applyOp x b op))"
proof (cases op)
  case (OpAddTransaction tx)
  with assms show ?thesis by (simp add: addTransaction_def)
next
  case OpExecuteNextTransaction
  obtain r b' where step: "executeNextTransaction x b = (r, b')"
    by (cases "executeNextTransaction x b")
  from executeNextTransaction_keeps [OF step] assms step OpExecuteNextTransaction
  show ?thesis by (simp add: ExecutionStarted_def)
next
  case OpExecuteBlock
  obtain e rs b' where step: "executeBlock x b = (e, rs, b')"
    by (cases "executeBlock x b") auto
  from executeBlock_keeps [OF step] assms step OpExecuteBlock
  show ?thesis by (simp add: ExecutionStarted_def)
qed

lemma applyOps_started:
  "ExecutionStarted (pendingBlock b) \<Longrightarrow> ExecutionStarted (pendingBlock (foldl (applyOp x) b ops))"
  by (induction ops arbitrary: b) (simp_all add: applyOp_started)

text \<open>
  Claim C7. After a successful \<open>executeNextTransaction\<close>, and after any further run of
  operations that keep the current pending block (adding, executing the next transaction,
  executing the block), adding a transaction returns \<open>PendingBlockMidExecutionError\<close>
  and leaves the facade (the transactions of the pending block with it) unchanged.
\<close>

theorem addTransaction_after_execution_started:
  assumes "executeNextTransaction x b = (Inr tr, b1)"
    and "b2 = foldl (applyOp x) b1 ops"
  shows "addTransaction x b2 tx = (Some (PendingBlockMidExecutionError (pbID (pendingBlock b2))), b2)"
proof -
  have "ExecutionStarted (pendingBlock b1)"
    using assms(1) by (rule executeNextTransaction_started)
  then have "ExecutionStarted (pendingBlock b2)"
    unfolding assms(2) by (rule applyOps_started)
  then show ?thesis by (simp add: addTransaction_def)
qed

theorem addTransaction_after_execution_started_witness:
  "executeNextTransaction exampleExternals twoPending = (Inr (exampleResult 1), midChain) \<and>
   addTransaction exampleExternals
     (foldl (applyOp exampleExternals) midChain [OpAddTransaction (exampleTx 3), OpExecuteNextTransaction])
     (exampleTx 4) =
   (Some (PendingBlockMidExecutionError 1),
    foldl (applyOp exampleExternals) midChain [OpAddTransaction (exampleTx 3), OpExecuteNextTransaction])"
proof -
  let ?b2 = "foldl (applyOp exampleExternals) midChain
      [OpAddTransaction (exampleTx 3), OpExecuteNextTransaction]"
  have "pbHeight (pendingBlock ?b2) = pbHeight (pendingBlock midChain)"
    using addTransaction_keeps [OF surjective_pairing, of exampleExternals midChain "exampleTx 3"]
      executeNextTransaction_keeps [OF surjective_pairing, of exampleExternals
        "snd (addTransaction exampleExternals midChain (exampleTx 3))"]
    by simp
  then have id: "pbID (pendingBlock ?b2) = 1"
    using midChain_pending by (simp add: pbID_def)
  from addTransaction_after_execution_started [OF midChain_step refl, of
      "[OpAddTransaction (exampleTx 3), OpExecuteNextTransaction]" "exampleTx 4"]
  show ?thesis using midChain_step unfolding id by simp
qed

subsection \<open>The result of a transaction\<close>

text \<open>
  Claim C8. \<open>GetTransactionResult\<close> returns the status \<open>Pending\<close> for an id in the
  pending block; \<open>Unknown\<close> for an id that is neither in the pending block nor has a
  result in the store; and, for an id with a stored result (whose events convert),
  \<open>Sealed\<close> with the converted stored events and with the execution error (code and
  message of the stored result) exactly when the stored error code is not 0.
\<close>

theorem GetTransactionResult_status:
  "(ContainsTransaction (pendingBlock b) txID \<longrightarrow>
      GetTransactionResult x b txID =
        Inr \<lparr>Status = TransactionStatusPending, Error = None, SDKEvents = []\<rparr>) \<and>
   (\<not> ContainsTransaction (pendingBlock b) txID \<and>
    TransactionResultByID (storage b) txID = Inl ErrNotFound \<longrightarrow>
      GetTransactionResult x b txID =
        Inr \<lparr>Status = TransactionStatusUnknown, Error = None, SDKEvents = []\<rparr>) \<and>
   (\<not> ContainsTransaction (pendingBlock b) txID \<and>
    TransactionResultByID (storage b) txID = Inr storedResult \<and>
    FlowEventsToSDK (FlowEventToSDK x) (Events storedResult) = Inr sdkEvents \<longrightarrow>
      GetTransactionResult x b txID =
        Inr \<lparr>Status = TransactionStatusSealed,
             Error = (if ErrorCode storedResult \<noteq> 0
                      then Some (ExecutionError (ErrorCode storedResult) (ErrorMessage storedResult))
                      else None),
             SDKEvents = sdkEvents\<rparr>)"
  by (simp add: GetTransactionResult_def Let_def)

theorem GetTransactionResult_status_witness:
  "GetTransactionResult exampleExternals twoPending 1 =
     Inr \<lparr>Status = TransactionStatusPending, Error = None, SDKEvents = []\<rparr> \<and>
   GetTransactionResult exampleExternals genesisChain 99 =
     Inr \<lparr>Status = TransactionStatusUnknown, Error = None, SDKEvents = []\<rparr> \<and>
   GetTransactionResult exampleExternals afterCreateAccount 7 =
     Inr \<lparr>Status = TransactionStatusSealed, Error = None,
          SDKEvents = [\<lparr>sdkType = EventAccountCreated, sdkFields = [1]\<rparr>]\<rparr>"
proof -
  have p: "ContainsTransaction (pendingBlock twoPending) 1"
    by (simp add: twoPending_eq ContainsTransaction_def newPendingBlock_def exampleTx_def)
  have u: "\<not> ContainsTransaction (pendingBlock genesisChain) 99 \<and>
      TransactionResultByID (storage genesisChain) 99 = Inl ErrNotFound"
    by (simp add: genesis_storage TransactionResultByID_def getTx_def)
       (simp add: genesisChain_def ContainsTransaction_def newPendingBlock_def)
  have s: "\<not> ContainsTransaction (pendingBlock afterCreateAccount) 7 \<and>
      TransactionResultByID (storage afterCreateAccount) 7 =
        Inr \<lparr>ErrorCode = 0, ErrorMessage = [], Logs = [],
             Events = [exampleEvent 0 0 EventAccountCreated]\<rparr> \<and>
      FlowEventsToSDK (FlowEventToSDK exampleExternals)
        (Events \<lparr>ErrorCode = 0, ErrorMessage = [], Logs = [],
             Events = [exampleEvent 0 0 EventAccountCreated]\<rparr>) =
        Inr [\<lparr>sdkType = EventAccountCreated, sdkFields = [1]\<rparr>]"
    using afterCreateAccount_facts
    by (simp add: ContainsTransaction_def newPendingBlock_def exampleExternals_def exampleEvent_def)
  from GetTransactionResult_status [of twoPending 1 exampleExternals] p
  have a: "GetTransactionResult exampleExternals twoPending 1 =
     Inr \<lparr>Status = TransactionStatusPending, Error = None, SDKEvents = []\<rparr>"
    by blast
  from GetTransactionResult_status [of genesisChain 99 exampleExternals] u
  have b: "GetTransactionResult exampleExternals genesisChain 99 =
     Inr \<lparr>Status = TransactionStatusUnknown, Error = None, SDKEvents = []\<rparr>"
    by blast
  from GetTransactionResult_status [of afterCreateAccount 7 exampleExternals
      "\<lparr>ErrorCode = 0, ErrorMessage = [], Logs = [], Events = [exampleEvent 0 0 EventAccountCreated]\<rparr>"
      "[\<lparr>sdkType = EventAccountCreated, sdkFields = [1]\<rparr>]"] s
  have c: "GetTransactionResult exampleExternals afterCreateAccount 7 =
     Inr \<lparr>Status = TransactionStatusSealed, Error = None,
          SDKEvents = [\<lparr>sdkType = EventAccountCreated, sdkFields = [1]\<rparr>]\<rparr>"
    by simp
  from a b c show ?thesis by blast
qed

subsection \<open>Creating an account\<close>






subsection \<open>A read after a refused commit\<close>

lemma chainFirst_eq:
  "chainFirst =
     \<lparr>storage =
        \<lparr>db = \<lparr>kv = firstFiles, refuses = oversized\<rparr>,
         ledgerChangeLog = [exampleRegister \<mapsto> [1]],
         dbGitRepository = \<lparr>branches = [(''master'', firstFiles)], tags = [], HEAD = ''master''\<rparr>\<rparr>,
      pendingBlock = newPendingBlock firstBlock 1\<rparr>"
  by (simp add: chainFirst_def refusedEventExternals_def limitedStore_def firstFiles_def
      firstBlock_def facade_eval store_eval Let_def)

lemma chainRefused_facts:
  "fst chainRefused = Inl (ErrSetFailed (eventKey 2 0 0 longType)) \<and>
   storage (snd (snd chainRefused)) =
     \<lparr>db = \<lparr>kv = firstFiles, refuses = oversized\<rparr>,
      ledgerChangeLog = [exampleRegister \<mapsto> [1, 2]],
      dbGitRepository = \<lparr>branches = [(''master'', firstFiles)], tags = [], HEAD = ''master''\<rparr>\<rparr>"
  by (simp add: chainRefused_def chainFirst_eq refusedEventExternals_def firstFiles_def
      firstBlock_def longEvent_def length_longType facade_eval store_eval Let_def
      numeral_2_eq_2)

lemma chainReset_eq:
  "chainReset = (None, (snd (snd chainRefused))\<lparr>pendingBlock := newPendingBlock firstBlock 1\<rparr>)"
  by (simp add: chainReset_def ResetPendingBlock_def chainRefused_facts LatestBlock_def
      getLatestBlockHeightTx_def getTx_def firstFiles_def firstBlock_def)

text \<open>
  Claim C1 at a run with a refused commit. The commit at height 2 returns the error of
  the refused write; after the reset the empty block is committed at height 2 and is
  the latest block. The value \<open>[10]\<close> written at height 1 is still stored and no delta
  that was committed wrote the register after it, but the in-memory changelog kept the
  entry of the refused commit: the view at the committed height 2 reads \<open>nil\<close>.
\<close>

theorem view_after_refused_commit_reads_nil:
  "fst chainRefused = Inl (ErrSetFailed (eventKey 2 0 0 longType)) \<and>
   fst chainReset = None \<and>
   fst chainEmptyCommit = Inr \<lparr>BlockID = 2, Height = 2, ParentID = 1\<rparr> \<and>
   LatestBlock (storage (snd chainEmptyCommit)) = Inr \<lparr>BlockID = 2, Height = 2, ParentID = 1\<rparr> \<and>
   getTx (kv (db (storage (snd chainEmptyCommit)))) (ledgerValueKey exampleRegister 1) = Inr (raw [10]) \<and>
   getTx (kv (db (storage (snd chainEmptyCommit)))) (ledgerValueKey exampleRegister 2) = Inl ErrNotFound \<and>
   ledgerChangeLog (storage (snd chainEmptyCommit)) exampleRegister = Some [1, 2] \<and>
   LedgerViewByHeight (storage (snd chainEmptyCommit)) 2 exampleRegister = Inr None \<and>
   LedgerViewByHeight (storage (snd chainEmptyCommit)) 1 exampleRegister = Inr (Some [10])"
  by (simp add: chainEmptyCommit_def chainReset_eq chainRefused_facts firstFiles_def firstBlock_def
      refusedEventExternals_def facade_eval store_eval Let_def numeral_2_eq_2)

end
